theory Spec2Isabelle
  imports Complex_Main "HOL-Library.List_Lexorder" "HOL-Library.Char_ord"
begin

section \<open>Numbers, errors and containers of the engine\<close>

text \<open>
  The analytics engine is JavaScript. Its numbers are modelled as follows: prices,
  outputs, revenues and every derived quantity are \<open>real\<close>; epoch timestamps and the
  time value of a \<open>Date\<close> (milliseconds since the epoch) are \<open>int\<close>; lengths and
  counters are \<open>nat\<close>. What JavaScript does outside the reals is written out as an
  error value: an exception of the source is \<open>Inl\<close> of an \<open>error\<close>, and a
  division whose denominator is not visibly guarded is a checked division that
  answers \<open>Inl NotFinite\<close> where JavaScript would produce \<open>NaN\<close> or an infinity.

  The engine is embedded twice. The first sections read its arithmetic over the
  reals, exactly: they say what the engine computes on the inputs on which every
  intermediate result is a double (the examples and the counterexamples below are
  such inputs, or are decided by a comparison that the rounding does not change),
  and they carry the properties that do not depend on the arithmetic. The section on
  the engine in double arithmetic embeds the KPI calculator and the representative
  period selector again with the rounding of every operation written out; the
  properties of the numbers that the engine returns are proved there.
\<close>

datatype error =
    NoData       \<comment> \<open>\<open>throw new Error('No data available for computation')\<close>\<close>
  | TypeError    \<comment> \<open>a property read on \<open>undefined\<close>\<close>
  | RangeError   \<comment> \<open>a call with more arguments than the runtime accepts\<close>
  | NotFinite    \<comment> \<open>a \<open>NaN\<close> or infinite number would be produced\<close>

definition jsdiv :: "real \<Rightarrow> real \<Rightarrow> error + real" where
  "jsdiv a b = (if b = 0 then Inl NotFinite else Inr (a / b))"

text \<open>\<open>Math.round\<close>: the nearest integer, ties towards plus infinity.\<close>

definition Math_round :: "real \<Rightarrow> int" where
  "Math_round x = \<lfloor>x + 1 / 2\<rfloor>"

text \<open>
  A JavaScript \<open>Set\<close> built from an array: the distinct elements in the order of
  their first insertion.
\<close>

definition setAdd :: "'a list \<Rightarrow> 'a \<Rightarrow> 'a list" where
  "setAdd s x = (if x \<in> set s then s else s @ [x])"

definition newSet :: "'a list \<Rightarrow> 'a list" where
  "newSet xs = foldl setAdd [] xs"

section \<open>Data model\<close>

record PricePoint =
  timestamp :: int
  price :: real

record OutputPoint =
  pv_timestamp :: int
  pv_output :: real

text \<open>
  An aligned record \<open>{timestamp, price, output, date}\<close>. The field \<open>date\<close> is the
  time value of the \<open>Date\<close> object, in milliseconds.
\<close>

record AlignedRecord = PricePoint +
  output_mw :: real
  date :: int

section \<open>Aligner\<close>

text \<open>\<open>new Date(ms)\<close>: the date object is its time value.\<close>

definition newDate :: "int \<Rightarrow> int" where
  "newDate ms = ms"

text \<open>
  The loop \<open>for (const ts of allTimestamps)\<close> of \<open>alignData\<close>: a record is pushed
  when both lookups are defined.
\<close>

fun alignedLoop :: "(int \<rightharpoonup> real) \<Rightarrow> (int \<rightharpoonup> real) \<Rightarrow> int list \<Rightarrow> AlignedRecord list" where
  "alignedLoop priceMap pvMap [] = []"
| "alignedLoop priceMap pvMap (ts # rest) =
     (case priceMap ts of
        None \<Rightarrow> alignedLoop priceMap pvMap rest
      | Some p \<Rightarrow>
          (case pvMap ts of
             None \<Rightarrow> alignedLoop priceMap pvMap rest
           | Some out \<Rightarrow>
               \<lparr>timestamp = ts, price = p, output_mw = out, date = newDate (ts * 1000)\<rparr>
                 # alignedLoop priceMap pvMap rest))"

definition alignData :: "PricePoint list \<Rightarrow> OutputPoint list \<Rightarrow> AlignedRecord list" where
  "alignData prices pvProfile =
     (let pvMap = foldl (\<lambda>m p. m(pv_timestamp p \<mapsto> pv_output p)) Map.empty pvProfile;
          priceMap = foldl (\<lambda>m p. m(timestamp p \<mapsto> price p)) Map.empty prices;
          allTimestamps = newSet (map timestamp prices @ map pv_timestamp pvProfile);
          aligned = alignedLoop priceMap pvMap allTimestamps
      in sort_key timestamp aligned)"

section \<open>Dates of the runtime\<close>

text \<open>
  The engine reads a \<open>Date\<close> through \<open>getFullYear\<close>, \<open>getMonth\<close> and
  \<open>getHours\<close> (local time) and through \<open>toISOString\<close> (UTC). These belong to
  the JavaScript runtime, not to the repository; they are modelled by the civil
  calendar of a day number (days since 1970-01-01, proleptic Gregorian). The local
  time zone is a parameter \<open>tz\<close>: the offset, in milliseconds, of local time from
  UTC at a given time value. A date is its time value, an integer; the definitions
  of this section are the ones of a valid date (a time value within 8.64e15
  milliseconds of the epoch). The \<open>Invalid Date\<close> is added in the section on the
  engine in double arithmetic.
\<close>

definition msPerDay :: int where
  "msPerDay = 86400000"

definition msPerHour :: int where
  "msPerHour = 3600000"

text \<open>Year, month (0 to 11) and day of the month (from 1) of a day number.\<close>

definition civil_from_days :: "int \<Rightarrow> int \<times> nat \<times> nat" where
  "civil_from_days days =
     (let z = days + 719468;
          era = z div 146097;
          doe = z mod 146097;
          yoe = (doe - doe div 1460 + doe div 36524 - doe div 146096) div 365;
          doy = doe - (365 * yoe + yoe div 4 - yoe div 100);
          mp = (5 * doy + 2) div 153;
          m = nat ((mp + 2) mod 12);
          d = nat (doy - (153 * mp + 2) div 5 + 1);
          y = yoe + era * 400 + (if m \<le> 1 then 1 else 0)
      in (y, m, d))"

definition LocalTime :: "(int \<Rightarrow> int) \<Rightarrow> int \<Rightarrow> int" where
  "LocalTime tz t = t + tz t"

definition getFullYear :: "(int \<Rightarrow> int) \<Rightarrow> int \<Rightarrow> int" where
  "getFullYear tz d = fst (civil_from_days (LocalTime tz d div msPerDay))"

definition getMonth :: "(int \<Rightarrow> int) \<Rightarrow> int \<Rightarrow> nat" where
  "getMonth tz d = fst (snd (civil_from_days (LocalTime tz d div msPerDay)))"

definition getHours :: "(int \<Rightarrow> int) \<Rightarrow> int \<Rightarrow> nat" where
  "getHours tz d = nat ((LocalTime tz d div msPerHour) mod 24)"

text \<open>The UTC runtime: local time is UTC.\<close>

definition utc :: "int \<Rightarrow> int" where
  "utc t = 0"

subsection \<open>Strings of numbers\<close>

definition digitChar :: "nat \<Rightarrow> char" where
  "digitChar n = ''0123456789'' ! (n mod 10)"

fun natString :: "nat \<Rightarrow> string" where
  "natString n = (if n < 10 then [digitChar n] else natString (n div 10) @ [digitChar n])"

text \<open>\<open>String(i)\<close> of an integer.\<close>

definition intString :: "int \<Rightarrow> string" where
  "intString i = (if i < 0 then CHR ''-'' # natString (nat (- i)) else natString (nat i))"

definition padStart :: "nat \<Rightarrow> char \<Rightarrow> string \<Rightarrow> string" where
  "padStart n c s = replicate (n - length s) c @ s"

text \<open>
  The month key of the KPI calculator:
  \<open>`${d.date.getFullYear()}-${String(d.date.getMonth() + 1).padStart(2, '0')}`\<close>.
\<close>

definition monthKey :: "(int \<Rightarrow> int) \<Rightarrow> int \<Rightarrow> string" where
  "monthKey tz d =
     intString (getFullYear tz d) @ ''-'' @ padStart 2 (CHR ''0'') (natString (getMonth tz d + 1))"

text \<open>
  The year of \<open>toISOString\<close>: four digits from 0 to 9999, otherwise a sign and six
  digits.
\<close>

definition isoYear :: "int \<Rightarrow> string" where
  "isoYear y =
     (if 0 \<le> y \<and> y \<le> 9999 then padStart 4 (CHR ''0'') (natString (nat y))
      else (if y < 0 then CHR ''-'' else CHR ''+'') # padStart 6 (CHR ''0'') (natString (nat \<bar>y\<bar>)))"

text \<open>The day key of the battery simulator: \<open>d.date.toISOString().split('T')[0]\<close>.\<close>

definition dayKey :: "int \<Rightarrow> string" where
  "dayKey d =
     (case civil_from_days (d div msPerDay) of
        (y, m, dd) \<Rightarrow>
          isoYear y @ ''-'' @ padStart 2 (CHR ''0'') (natString (m + 1))
            @ ''-'' @ padStart 2 (CHR ''0'') (natString dd))"

section \<open>Utilities of the computation engine\<close>

text \<open>
  A JavaScript \<open>Map\<close> used as an accumulator, as an association list in insertion
  order: \<open>if (!map.has(k)) map.set(k, init); update(map.get(k))\<close>.
\<close>

fun upsert :: "'k \<Rightarrow> 'v \<Rightarrow> ('v \<Rightarrow> 'v) \<Rightarrow> ('k \<times> 'v) list \<Rightarrow> ('k \<times> 'v) list" where
  "upsert k init f [] = [(k, f init)]"
| "upsert k init f ((k', v) # kvs) =
     (if k = k' then (k', f v) # kvs else (k', v) # upsert k init f kvs)"

text \<open>Array \<open>map\<close> with a function that may fail: the first failure is the result.\<close>

fun mapE :: "('a \<Rightarrow> error + 'b) \<Rightarrow> 'a list \<Rightarrow> error + 'b list" where
  "mapE f [] = Inr []"
| "mapE f (x # xs) =
     (case f x of
        Inl e \<Rightarrow> Inl e
      | Inr y \<Rightarrow> (case mapE f xs of Inl e \<Rightarrow> Inl e | Inr ys \<Rightarrow> Inr (y # ys)))"

text \<open>A \<open>forEach\<close> whose body may fail, threading a state.\<close>

fun foldE :: "('s \<Rightarrow> 'a \<Rightarrow> error + 's) \<Rightarrow> 's \<Rightarrow> 'a list \<Rightarrow> error + 's" where
  "foldE f s [] = Inr s"
| "foldE f s (x # xs) = (case f s x of Inl e \<Rightarrow> Inl e | Inr s' \<Rightarrow> foldE f s' xs)"

definition calculateMean :: "real list \<Rightarrow> real" where
  "calculateMean vals =
     (if length vals = 0 then 0 else foldl (\<lambda>a b. a + b) 0 vals / real (length vals))"

text \<open>
  An array read \<open>arr[i]\<close> whose value goes into arithmetic: out of range it is
  \<open>undefined\<close>, and the number computed from it is \<open>NaN\<close>.
\<close>

definition readNum :: "real list \<Rightarrow> int \<Rightarrow> error + real" where
  "readNum arr i = (if 0 \<le> i \<and> i < int (length arr) then Inr (arr ! nat i) else Inl NotFinite)"

definition percentile :: "real list \<Rightarrow> real \<Rightarrow> error + real" where
  "percentile sortedArr p =
     (if length sortedArr = 0 then Inr 0
      else (let idx = (p / 100) * (real (length sortedArr) - 1);
                lower = \<lfloor>idx\<rfloor>;
                upper = \<lceil>idx\<rceil>
            in if lower = upper then readNum sortedArr lower
               else (case readNum sortedArr lower of
                       Inl e \<Rightarrow> Inl e
                     | Inr a \<Rightarrow>
                         (case readNum sortedArr upper of
                            Inl e \<Rightarrow> Inl e
                          | Inr b \<Rightarrow>
                              Inr (a * (real_of_int upper - idx) + b * (idx - real_of_int lower))))))"

section \<open>KPI calculator\<close>

record Options =
  floorPrice :: "real option"
  ppaPrice :: "real option"

record Monthly =
  month :: string

record MonthlyRevenue = Monthly +
  revenue :: real
  production :: real

record MonthlyCaptureRate = Monthly +
  baseload :: real
  capture :: real
  rate :: real

text \<open>The accumulator objects stored in the two monthly maps.\<close>

record RevenueAcc =
  acc_revenue :: real
  acc_production :: real

record CaptureAcc =
  priceSum :: real
  weightedPriceSum :: real
  outputSum :: real
  count :: nat

record RiskMetrics =
  p5 :: int
  p50 :: int
  p95 :: int

record Bin =
  bin_range :: string
  bin_min :: int
  bin_max :: int
  allCount :: nat
  pvCount :: nat

record DistBin =
  dist_range :: string
  dist_min :: int
  allPct :: real
  pvPct :: real

record Heatmap =
  heatmap :: "nat list list"
  counts :: "nat list list"
  maxCount :: nat

record KPIResult =
  baseloadAvg :: real
  capturePrice :: real
  captureRate :: real
  negativeHoursCount :: nat
  negativeMWh :: int
  negativePercentage :: real
  totalProduction :: int
  merchantRevenue :: int
  ppaRevenue :: "int option"
  riskMetrics :: RiskMetrics
  monthlyCaptureRates :: "MonthlyCaptureRate list"
  priceDistribution :: "DistBin list"
  negativeHeatmap :: Heatmap
  dataPoints :: nat

subsection \<open>Monthly revenues and risk metrics\<close>

text \<open>
  The months are sorted by \<open>a.month.localeCompare(b.month)\<close>. The keys are strings
  of digits and hyphens, on which the comparison is the lexicographic order of the
  characters; the keys of a map are distinct, so the order of the result does not
  depend on the sorting algorithm.
\<close>

definition calculateMonthlyRevenues :: "(int \<Rightarrow> int) \<Rightarrow> AlignedRecord list \<Rightarrow> MonthlyRevenue list" where
  "calculateMonthlyRevenues tz data =
     (let monthlyMap =
            foldl (\<lambda>m d. upsert (monthKey tz (date d)) \<lparr>acc_revenue = 0, acc_production = 0\<rparr>
                     (\<lambda>a. \<lparr>acc_revenue = acc_revenue a + price d * output_mw d,
                           acc_production = acc_production a + output_mw d\<rparr>) m)
              [] data
      in sort_key month
           (map (\<lambda>(k, a). \<lparr>month = k, revenue = acc_revenue a, production = acc_production a\<rparr>)
              monthlyMap))"

definition calculateRiskMetrics :: "MonthlyRevenue list \<Rightarrow> error + RiskMetrics" where
  "calculateRiskMetrics monthlyRevenues =
     (let revenues = map revenue monthlyRevenues
      in if length revenues = 0 then Inr \<lparr>p5 = 0, p50 = 0, p95 = 0\<rparr>
         else (let sortedRevenues = sort revenues
               in case percentile sortedRevenues 5 of
                    Inl e \<Rightarrow> Inl e
                  | Inr a \<Rightarrow>
                      (case percentile sortedRevenues 50 of
                         Inl e \<Rightarrow> Inl e
                       | Inr b \<Rightarrow>
                           (case percentile sortedRevenues 95 of
                              Inl e \<Rightarrow> Inl e
                            | Inr c \<Rightarrow>
                                Inr \<lparr>p5 = Math_round a, p50 = Math_round b, p95 = Math_round c\<rparr>))))"

subsection \<open>Monthly capture rates\<close>

text \<open>
  The body of the \<open>map\<close> over the entries of the monthly map. The division
  \<open>data.priceSum / data.count\<close> has no guard in the source.
\<close>

definition captureRateOfMonth :: "string \<times> CaptureAcc \<Rightarrow> error + MonthlyCaptureRate" where
  "captureRateOfMonth entry =
     (case entry of
        (k, a) \<Rightarrow>
          (case jsdiv (priceSum a) (real (count a)) of
             Inl e \<Rightarrow> Inl e
           | Inr baseload' \<Rightarrow>
               (let capture' = (if outputSum a > 0 then weightedPriceSum a / outputSum a else 0);
                    rate' = (if baseload' > 0 then (capture' / baseload') * 100 else 0)
                in Inr \<lparr>month = k,
                         baseload = real_of_int (Math_round (baseload' * 100)) / 100,
                         capture = real_of_int (Math_round (capture' * 100)) / 100,
                         rate = real_of_int (Math_round (rate' * 10)) / 10\<rparr>)))"

definition captureMap :: "(int \<Rightarrow> int) \<Rightarrow> AlignedRecord list \<Rightarrow> (string \<times> CaptureAcc) list" where
  "captureMap tz data =
     foldl (\<lambda>m d. upsert (monthKey tz (date d))
                     \<lparr>priceSum = 0, weightedPriceSum = 0, outputSum = 0, count = 0\<rparr>
                     (\<lambda>a. \<lparr>priceSum = priceSum a + price d,
                           weightedPriceSum = weightedPriceSum a + price d * output_mw d,
                           outputSum = outputSum a + output_mw d,
                           count = count a + 1\<rparr>) m)
       [] data"

definition calculateMonthlyCaptureRates ::
    "(int \<Rightarrow> int) \<Rightarrow> AlignedRecord list \<Rightarrow> error + MonthlyCaptureRate list" where
  "calculateMonthlyCaptureRates tz data =
     (case mapE captureRateOfMonth (captureMap tz data) of
        Inl e \<Rightarrow> Inl e
      | Inr rates \<Rightarrow> Inr (sort_key month rates))"

subsection \<open>Price distribution\<close>

definition binWidth :: int where
  "binWidth = 10"

text \<open>The loop \<open>for (let i = min; i < max; i += binWidth)\<close> that creates the bins.\<close>

function binsLoop :: "int \<Rightarrow> int \<Rightarrow> Bin list" where
  "binsLoop i mx =
     (if i < mx
      then \<lparr>bin_range = intString i @ ''-'' @ intString (i + binWidth),
            bin_min = i, bin_max = i + binWidth, allCount = 0, pvCount = 0\<rparr>
             # binsLoop (i + binWidth) mx
      else [])"
  by pat_completeness auto
termination
  by (relation "measure (\<lambda>(i, mx). nat (mx - i))") (auto simp: binWidth_def)

text \<open>
  \<open>const bin = bins.find(P); if (bin) update(bin)\<close>: the first element that
  satisfies \<open>P\<close> is updated, if there is one.
\<close>

fun findUpdate :: "('a \<Rightarrow> bool) \<Rightarrow> ('a \<Rightarrow> 'a) \<Rightarrow> 'a list \<Rightarrow> 'a list" where
  "findUpdate P f [] = []"
| "findUpdate P f (b # bs) = (if P b then f b # bs else b # findUpdate P f bs)"

definition inBin :: "real \<Rightarrow> Bin \<Rightarrow> bool" where
  "inBin p b = (real_of_int (bin_min b) \<le> p \<and> p < real_of_int (bin_max b))"

definition fillAll :: "Bin list \<Rightarrow> real list \<Rightarrow> Bin list" where
  "fillAll bins allPrices =
     foldl (\<lambda>bs p. findUpdate (inBin p) (\<lambda>b. b\<lparr>allCount := allCount b + 1\<rparr>) bs) bins allPrices"

definition fillPv :: "Bin list \<Rightarrow> real list \<Rightarrow> Bin list" where
  "fillPv bins pvPrices =
     foldl (\<lambda>bs p. findUpdate (inBin p) (\<lambda>b. b\<lparr>pvCount := pvCount b + 1\<rparr>) bs) bins pvPrices"

text \<open>
  The conversion of a bin to percentages. The division \<open>b.allCount / allTotal\<close> has
  no guard in the source.
\<close>

definition binPercentages :: "nat \<Rightarrow> nat \<Rightarrow> Bin \<Rightarrow> error + DistBin" where
  "binPercentages allTotal pvTotal b =
     (case jsdiv (real (allCount b)) (real allTotal) of
        Inl e \<Rightarrow> Inl e
      | Inr q \<Rightarrow>
          Inr \<lparr>dist_range = bin_range b,
               dist_min = bin_min b,
               allPct = real_of_int (Math_round (q * 1000)) / 10,
               pvPct = (if pvTotal > 0
                        then real_of_int (Math_round ((real (pvCount b) / real pvTotal) * 1000)) / 10
                        else 0)\<rparr>)"

text \<open>
  The bins of a non-empty price list, from \<open>Math.floor(Math.min(...allPrices) / 10) * 10\<close>
  to \<open>Math.ceil(Math.max(...allPrices) / 10) * 10\<close>.
\<close>

definition priceBins :: "real \<Rightarrow> real list \<Rightarrow> Bin list" where
  "priceBins p0 rest =
     binsLoop (\<lfloor>foldl min p0 rest / 10\<rfloor> * 10) (\<lceil>foldl max p0 rest / 10\<rceil> * 10)"

text \<open>
  Of an empty series \<open>Math.min()\<close> is plus infinity and \<open>Math.max()\<close> minus
  infinity: the loop creates no bin and the result is empty.
\<close>

definition calculatePriceDistribution :: "AlignedRecord list \<Rightarrow> error + DistBin list" where
  "calculatePriceDistribution data =
     (let allPrices = map price data;
          pvPrices = map price (filter (\<lambda>d. output_mw d > 0) data)
      in case allPrices of
           [] \<Rightarrow> Inr []
         | p0 # rest \<Rightarrow>
             mapE (binPercentages (length allPrices) (length pvPrices))
               (fillPv (fillAll (priceBins p0 rest) allPrices) pvPrices))"

subsection \<open>Negative price heatmap\<close>

text \<open>
  \<open>matrix[m][h]++\<close>. A row index outside the matrix reads \<open>undefined\<close> and the
  column access throws; a column index outside the row stores \<open>NaN\<close>.
\<close>

definition matrixIncr :: "nat list list \<Rightarrow> nat \<Rightarrow> nat \<Rightarrow> error + nat list list" where
  "matrixIncr mat m h =
     (if m < length mat
      then (if h < length (mat ! m)
            then Inr (mat[m := (mat ! m)[h := mat ! m ! h + 1]])
            else Inl NotFinite)
      else Inl TypeError)"

definition heatmapStep ::
    "(int \<Rightarrow> int) \<Rightarrow> nat list list \<times> nat list list \<Rightarrow> AlignedRecord
      \<Rightarrow> error + nat list list \<times> nat list list" where
  "heatmapStep tz st d =
     (case st of
        (hm, cn) \<Rightarrow>
          (if output_mw d > 0
           then (case matrixIncr cn (getMonth tz (date d)) (getHours tz (date d)) of
                   Inl e \<Rightarrow> Inl e
                 | Inr cn' \<Rightarrow>
                     (if price d < 0
                      then (case matrixIncr hm (getMonth tz (date d)) (getHours tz (date d)) of
                              Inl e \<Rightarrow> Inl e
                            | Inr hm' \<Rightarrow> Inr (hm', cn'))
                      else Inr (hm, cn')))
           else Inr (hm, cn)))"

definition findMaxCount :: "nat list list \<Rightarrow> nat" where
  "findMaxCount hm =
     foldl (\<lambda>mx m. foldl (\<lambda>mx h. if hm ! m ! h > mx then hm ! m ! h else mx) mx [0..<24])
       0 [0..<12]"

definition calculateNegativeHeatmap :: "(int \<Rightarrow> int) \<Rightarrow> AlignedRecord list \<Rightarrow> error + Heatmap" where
  "calculateNegativeHeatmap tz data =
     (case foldE (heatmapStep tz) (replicate 12 (replicate 24 0), replicate 12 (replicate 24 0)) data of
        Inl e \<Rightarrow> Inl e
      | Inr (hm, cn) \<Rightarrow> Inr \<lparr>heatmap = hm, counts = cn, maxCount = findMaxCount hm\<rparr>)"

subsection \<open>The KPIs\<close>

text \<open>
  \<open>calculateKPIs(data, capacityMW, options)\<close>. The series is \<open>None\<close> when the
  caller passes \<open>null\<close> or \<open>undefined\<close>.
\<close>

definition effectivePrice :: "Options \<Rightarrow> AlignedRecord \<Rightarrow> real" where
  "effectivePrice options d =
     (case floorPrice options of None \<Rightarrow> price d | Some fp \<Rightarrow> max (price d) fp)"

definition calculateKPIs ::
    "(int \<Rightarrow> int) \<Rightarrow> AlignedRecord list option \<Rightarrow> real \<Rightarrow> Options \<Rightarrow> error + KPIResult" where
  "calculateKPIs tz dataArg capacityMW options =
     (case dataArg of
        None \<Rightarrow> Inl NoData
      | Some data \<Rightarrow>
          if length data = 0 then Inl NoData
          else
           (let baseloadAvg' = calculateMean (map price data);
                totalProduction' = foldl (\<lambda>sum d. sum + output_mw d) 0 data;
                weightedSum = foldl (\<lambda>sum d. sum + price d * output_mw d) 0 data;
                capturePrice' = (if totalProduction' > 0 then weightedSum / totalProduction' else 0);
                captureRate' = (if baseloadAvg' > 0 then (capturePrice' / baseloadAvg') * 100 else 0);
                negativeHours = filter (\<lambda>d. price d < 0 \<and> output_mw d > 0) data;
                negativeHoursCount' = length negativeHours;
                negativeMWh' = foldl (\<lambda>sum d. sum + output_mw d) 0 negativeHours;
                negativePercentage' =
                  (if totalProduction' > 0 then (negativeMWh' / totalProduction') * 100 else 0);
                merchantRevenue' = foldl (\<lambda>sum d. sum + effectivePrice options d * output_mw d) 0 data;
                ppaRevenue' =
                  (case ppaPrice options of None \<Rightarrow> None | Some pp \<Rightarrow> Some (totalProduction' * pp));
                monthlyRevenues = calculateMonthlyRevenues tz data
            in case calculateRiskMetrics monthlyRevenues of
                 Inl e \<Rightarrow> Inl e
               | Inr riskMetrics' \<Rightarrow>
              (case calculateMonthlyCaptureRates tz data of
                 Inl e \<Rightarrow> Inl e
               | Inr monthlyCaptureRates' \<Rightarrow>
              (case calculatePriceDistribution data of
                 Inl e \<Rightarrow> Inl e
               | Inr priceDistribution' \<Rightarrow>
              (case calculateNegativeHeatmap tz data of
                 Inl e \<Rightarrow> Inl e
               | Inr negativeHeatmap' \<Rightarrow>
                   Inr \<lparr>baseloadAvg = real_of_int (Math_round (baseloadAvg' * 100)) / 100,
                        capturePrice = real_of_int (Math_round (capturePrice' * 100)) / 100,
                        captureRate = real_of_int (Math_round (captureRate' * 10)) / 10,
                        negativeHoursCount = negativeHoursCount',
                        negativeMWh = Math_round negativeMWh',
                        negativePercentage = real_of_int (Math_round (negativePercentage' * 10)) / 10,
                        totalProduction = Math_round totalProduction',
                        merchantRevenue = Math_round merchantRevenue',
                        ppaRevenue = map_option Math_round ppaRevenue',
                        riskMetrics = riskMetrics',
                        monthlyCaptureRates = monthlyCaptureRates',
                        priceDistribution = priceDistribution',
                        negativeHeatmap = negativeHeatmap',
                        dataPoints = length data\<rparr>)))))"

section \<open>Battery simulator\<close>

text \<open>
  The battery configuration. \<open>oneCyclePerDay\<close> is \<open>None\<close> when the caller leaves
  the field out; the destructuring default is \<open>true\<close>.
\<close>

record BatteryConfig =
  powerMW :: real
  energyMWh :: real
  efficiency :: real
  oneCyclePerDay :: "bool option"

text \<open>\<open>CONFIG.BATTERY.MIN_SOC\<close> and \<open>CONFIG.BATTERY.MAX_SOC\<close>.\<close>

definition MIN_SOC :: real where
  "MIN_SOC = 5 / 100"

definition MAX_SOC :: real where
  "MAX_SOC = 95 / 100"

text \<open>
  \<open>Math.sqrt(efficiency)\<close>. The model covers an efficiency that is not negative
  (the documented range is from 0, excluded, to 1); of a negative one the runtime's
  square root is \<open>NaN\<close>.
\<close>

definition sqrtEfficiency :: "BatteryConfig \<Rightarrow> real" where
  "sqrtEfficiency cfg = sqrt (efficiency cfg)"

definition minSOC :: "BatteryConfig \<Rightarrow> real" where
  "minSOC cfg = MIN_SOC * energyMWh cfg"

definition maxSOC :: "BatteryConfig \<Rightarrow> real" where
  "maxSOC cfg = MAX_SOC * energyMWh cfg"

definition groupByDay :: "AlignedRecord list \<Rightarrow> AlignedRecord list list" where
  "groupByDay data =
     map snd (foldl (\<lambda>m d. upsert (dayKey (date d)) [] (\<lambda>l. l @ [d]) m) [] data)"

text \<open>
  The second argument of \<open>slice(0, n)\<close>: an integer, or plus infinity. A negative
  integer counts from the end of the array.
\<close>

datatype sliceArg = Count int | Unbounded

definition slice0 :: "'a list \<Rightarrow> sliceArg \<Rightarrow> 'a list" where
  "slice0 xs n =
     (case n of
        Unbounded \<Rightarrow> xs
      | Count k \<Rightarrow> if k < 0 then take (nat (int (length xs) + k)) xs else take (nat k) xs)"

text \<open>
  \<open>oneCyclePerDay ? Math.ceil(energyMWh / powerMW) : 24\<close>. With \<open>powerMW = 0\<close> the
  quotient is plus infinity when \<open>energyMWh\<close> is positive; it is minus infinity or
  \<open>NaN\<close> otherwise, and \<open>slice\<close> then keeps nothing, as with a count of 0.
\<close>

definition cycleHours :: "BatteryConfig \<Rightarrow> sliceArg" where
  "cycleHours cfg =
     (if (case oneCyclePerDay cfg of None \<Rightarrow> True | Some b \<Rightarrow> b)
      then (if powerMW cfg = 0
            then (if energyMWh cfg > 0 then Unbounded else Count 0)
            else Count \<lceil>energyMWh cfg / powerMW cfg\<rceil>)
      else Count 24)"

text \<open>
  The hours of a day are objects, and \<open>chargeHours.includes(d)\<close> compares them by
  identity. The model pairs every record of the day with its position in the day;
  the pair is the object. \<open>[...dayData].sort((a, b) => a.price - b.price)\<close> is a
  stable sort by price.
\<close>

definition sortedHours :: "AlignedRecord list \<Rightarrow> (nat \<times> AlignedRecord) list" where
  "sortedHours dayData = sort_key (\<lambda>h. price (snd h)) (enumerate 0 dayData)"

definition chargeHours :: "BatteryConfig \<Rightarrow> AlignedRecord list \<Rightarrow> (nat \<times> AlignedRecord) list" where
  "chargeHours cfg dayData =
     slice0 (filter (\<lambda>h. output_mw (snd h) > 0) (sortedHours dayData)) (cycleHours cfg)"

definition dischargeHours :: "BatteryConfig \<Rightarrow> AlignedRecord list \<Rightarrow> (nat \<times> AlignedRecord) list" where
  "dischargeHours cfg dayData =
     slice0 (rev (filter (\<lambda>h. output_mw (snd h) = 0 \<or> h \<notin> set (chargeHours cfg dayData))
                    (sortedHours dayData)))
       (cycleHours cfg)"

record DayState =
  soc :: real
  dayUplift :: real
  dayShifted :: real
  dayNegAvoided :: real

definition dayStart :: "BatteryConfig \<Rightarrow> DayState" where
  "dayStart cfg = \<lparr>soc = minSOC cfg, dayUplift = 0, dayShifted = 0, dayNegAvoided = 0\<rparr>"

text \<open>The body of the charging loop.\<close>

definition chargeStep :: "BatteryConfig \<Rightarrow> DayState \<Rightarrow> nat \<times> AlignedRecord \<Rightarrow> DayState" where
  "chargeStep cfg st h =
     (let hour = snd h;
          availableCapacity = maxSOC cfg - soc st;
          chargeableFromPV = min (output_mw hour) (powerMW cfg);
          actualCharge = min chargeableFromPV availableCapacity * sqrtEfficiency cfg
      in if actualCharge > 0
         then (let chargeRevenueLost = (actualCharge / sqrtEfficiency cfg) * price hour
               in \<lparr>soc = soc st + actualCharge,
                   dayUplift = dayUplift st - chargeRevenueLost,
                   dayShifted = dayShifted st + actualCharge / sqrtEfficiency cfg,
                   dayNegAvoided =
                     (if price hour < 0
                      then dayNegAvoided st + actualCharge / sqrtEfficiency cfg
                      else dayNegAvoided st)\<rparr>)
         else st)"

text \<open>The body of the discharging loop.\<close>

definition dischargeStep :: "BatteryConfig \<Rightarrow> DayState \<Rightarrow> nat \<times> AlignedRecord \<Rightarrow> DayState" where
  "dischargeStep cfg st h =
     (let hour = snd h;
          availableEnergy = soc st - minSOC cfg;
          actualDischarge = min (powerMW cfg) availableEnergy
      in if actualDischarge > 0
         then (let dischargeRevenue = actualDischarge * sqrtEfficiency cfg * price hour
               in st\<lparr>soc := soc st - actualDischarge,
                     dayUplift := dayUplift st + dischargeRevenue\<rparr>)
         else st)"

definition afterCharging :: "BatteryConfig \<Rightarrow> AlignedRecord list \<Rightarrow> DayState" where
  "afterCharging cfg dayData = foldl (chargeStep cfg) (dayStart cfg) (chargeHours cfg dayData)"

definition simulateDay :: "BatteryConfig \<Rightarrow> AlignedRecord list \<Rightarrow> DayState" where
  "simulateDay cfg dayData =
     foldl (dischargeStep cfg) (afterCharging cfg dayData) (dischargeHours cfg dayData)"

record DailyResult =
  day_date :: int
  uplift :: real
  shifted :: real

text \<open>
  The totals that the loop over the days accumulates: the local variables
  \<open>totalUplift\<close>, \<open>totalShiftedMWh\<close>, \<open>totalNegativeAvoided\<close>,
  \<open>originalNegativeRevenue\<close> and \<open>dailyResults\<close>.
\<close>

record Totals =
  totalUplift_acc :: real
  totalShiftedMWh_acc :: real
  totalNegativeAvoided :: real
  originalNegativeRevenue :: real
  dailyResults_acc :: "DailyResult list"

definition totalsStart :: Totals where
  "totalsStart =
     \<lparr>totalUplift_acc = 0, totalShiftedMWh_acc = 0, totalNegativeAvoided = 0,
      originalNegativeRevenue = 0, dailyResults_acc = []\<rparr>"

text \<open>
  The body of the loop over the days. \<open>dayData[0].date\<close> throws on an empty day.
\<close>

definition dayBody :: "BatteryConfig \<Rightarrow> Totals \<Rightarrow> AlignedRecord list \<Rightarrow> error + Totals" where
  "dayBody cfg t dayData =
     (let st = simulateDay cfg dayData;
          negRevenue =
            foldl (\<lambda>s hour. if price hour < 0 \<and> output_mw hour > 0
                              then s + price hour * output_mw hour else s)
              (originalNegativeRevenue t) dayData
      in case dayData of
           [] \<Rightarrow> Inl TypeError
         | d0 # rest \<Rightarrow>
             Inr \<lparr>totalUplift_acc = totalUplift_acc t + dayUplift st,
                  totalShiftedMWh_acc = totalShiftedMWh_acc t + dayShifted st,
                  totalNegativeAvoided = totalNegativeAvoided t + dayNegAvoided st,
                  originalNegativeRevenue = negRevenue,
                  dailyResults_acc =
                    dailyResults_acc t @ [\<lparr>day_date = date d0, uplift = dayUplift st, shifted = dayShifted st\<rparr>]\<rparr>)"

definition batteryTotals :: "BatteryConfig \<Rightarrow> AlignedRecord list \<Rightarrow> error + Totals" where
  "batteryTotals cfg data = foldE (dayBody cfg) totalsStart (groupByDay data)"

text \<open>
  The denominator of the negative exposure reduction:
  \<open>data.filter(d => d.price < 0 && d.output > 0).reduce((s, d) => s + d.output, 0)\<close>.
\<close>

definition negativeProduction :: "AlignedRecord list \<Rightarrow> real" where
  "negativeProduction data =
     foldl (\<lambda>s d. s + output_mw d) 0 (filter (\<lambda>d. price d < 0 \<and> output_mw d > 0) data)"

text \<open>
  The negative exposure reduction. The source guards the division by the sign of the
  numerator, not of the denominator, so the division is a checked one.
\<close>

definition negativeReductionOf :: "Totals \<Rightarrow> AlignedRecord list \<Rightarrow> error + real" where
  "negativeReductionOf t data =
     (if totalNegativeAvoided t > 0
      then (case jsdiv (totalNegativeAvoided t) (negativeProduction data) of
              Inl e \<Rightarrow> Inl e
            | Inr q \<Rightarrow> Inr (q * 100))
      else Inr 0)"

record BatteryResult =
  totalUplift :: int
  totalShiftedMWh :: int
  effectiveCapturePrice :: real
  negativeReduction :: real
  upliftPercentage :: real
  dailyResults :: "DailyResult list"
  config :: BatteryConfig

definition simulateBattery :: "AlignedRecord list \<Rightarrow> BatteryConfig \<Rightarrow> error + BatteryResult" where
  "simulateBattery data batteryConfig =
     (case batteryTotals batteryConfig data of
        Inl e \<Rightarrow> Inl e
      | Inr t \<Rightarrow>
          (let originalRevenue = foldl (\<lambda>sum d. sum + price d * output_mw d) 0 data;
               newRevenue = originalRevenue + totalUplift_acc t;
               totalProduction' = foldl (\<lambda>sum d. sum + output_mw d) 0 data;
               effectiveCapturePrice' =
                 (if totalProduction' > 0 then newRevenue / totalProduction' else 0)
           in case negativeReductionOf t data of
                Inl e \<Rightarrow> Inl e
              | Inr negativeReduction' \<Rightarrow>
                  Inr \<lparr>totalUplift = Math_round (totalUplift_acc t),
                       totalShiftedMWh = Math_round (totalShiftedMWh_acc t),
                       effectiveCapturePrice = real_of_int (Math_round (effectiveCapturePrice' * 100)) / 100,
                       negativeReduction = real_of_int (Math_round (negativeReduction' * 10)) / 10,
                       upliftPercentage =
                         (if originalRevenue > 0
                          then real_of_int (Math_round ((totalUplift_acc t / originalRevenue) * 1000)) / 10
                          else 0),
                       dailyResults = dailyResults_acc t,
                       config = batteryConfig\<rparr>))"

section \<open>Representative weeks\<close>

definition weekStep ::
    "AlignedRecord list list \<times> AlignedRecord list \<Rightarrow> AlignedRecord
      \<Rightarrow> AlignedRecord list list \<times> AlignedRecord list" where
  "weekStep st d =
     (case st of
        (weeks, currentWeek) \<Rightarrow>
          if length currentWeek = 0 then (weeks, currentWeek @ [d])
          else if length currentWeek < 168 then (weeks, currentWeek @ [d])
          else (weeks @ [currentWeek], [d]))"

definition groupByWeek :: "AlignedRecord list \<Rightarrow> AlignedRecord list list" where
  "groupByWeek data =
     (case foldl weekStep ([], []) data of
        (weeks, currentWeek) \<Rightarrow>
          if length currentWeek \<ge> 120 then weeks @ [currentWeek] else weeks)"

text \<open>
  The metrics of a week are numbers that the engine computes in doubles; the
  functions that compute them are in the section on the engine in double arithmetic.
\<close>

record WeekMetrics =
  week_data :: "AlignedRecord list"
  startDate :: int
  volatility :: real
  negativeHours :: nat
  avgCapture :: real

text \<open>An array read \<open>arr[i]\<close> kept as a value: \<open>undefined\<close> out of range.\<close>

definition readAt :: "'a list \<Rightarrow> int \<Rightarrow> 'a option" where
  "readAt arr i = (if 0 \<le> i \<and> i < int (length arr) then Some (arr ! nat i) else None)"

record RepresentativeWeeks =
  typical :: "WeekMetrics option"
  volatile :: "WeekMetrics option"
  negative :: "WeekMetrics option"

section \<open>Reference definitions and example inputs\<close>

text \<open>
  The partition of the representative period selector as the specification words it:
  consecutive windows of 168 records, and a final remainder that is kept only if it
  has at least 120 records.
\<close>

function weekWindows :: "'a list \<Rightarrow> 'a list list" where
  "weekWindows xs =
     (if length xs > 168 then take 168 xs # weekWindows (drop 168 xs)
      else if length xs \<ge> 120 then [xs] else [])"
  by pat_completeness auto
termination
  by (relation "measure length") auto

text \<open>A battery and a one-day series: a negative-price producing hour and an expensive hour without production.\<close>

definition batteryExample :: BatteryConfig where
  "batteryExample = \<lparr>powerMW = 10, energyMWh = 20, efficiency = 1, oneCyclePerDay = Some True\<rparr>"

definition dayExample :: "AlignedRecord list" where
  "dayExample =
     [\<lparr>timestamp = 0, price = - 10, output_mw = 10, date = 0\<rparr>,
      \<lparr>timestamp = 3600, price = 50, output_mw = 0, date = 3600000\<rparr>]"

text \<open>The shape of the two heatmap matrices: 12 rows of 24 cells.\<close>

definition matrixDims :: "nat list list \<Rightarrow> bool" where
  "matrixDims mat = (length mat = 12 \<and> list_all (\<lambda>row. length row = 24) mat)"

text \<open>
  The quantities of the KPI calculator as the specification writes them, at full
  precision, and rounding to \<open>k\<close> decimals.
\<close>

definition roundTo :: "nat \<Rightarrow> real \<Rightarrow> real" where
  "roundTo k x = real_of_int \<lfloor>x * 10 ^ k + 1 / 2\<rfloor> / 10 ^ k"

definition meanPrice :: "AlignedRecord list \<Rightarrow> real" where
  "meanPrice data = (\<Sum>d\<leftarrow>data. price d) / real (length data)"

definition sumOutput :: "AlignedRecord list \<Rightarrow> real" where
  "sumOutput data = (\<Sum>d\<leftarrow>data. output_mw d)"

definition sumRevenue :: "AlignedRecord list \<Rightarrow> real" where
  "sumRevenue data = (\<Sum>d\<leftarrow>data. price d * output_mw d)"

definition negativeExposure :: "AlignedRecord list \<Rightarrow> AlignedRecord list" where
  "negativeExposure data = filter (\<lambda>d. price d < 0 \<and> output_mw d > 0) data"

definition sumMerchant :: "Options \<Rightarrow> AlignedRecord list \<Rightarrow> real" where
  "sumMerchant options data = (\<Sum>d\<leftarrow>data. effectivePrice options d * output_mw d)"

definition exactCapturePrice :: "AlignedRecord list \<Rightarrow> real" where
  "exactCapturePrice data = (if 0 < sumOutput data then sumRevenue data / sumOutput data else 0)"

definition exactCaptureRate :: "AlignedRecord list \<Rightarrow> real" where
  "exactCaptureRate data =
     (if 0 < meanPrice data then 100 * exactCapturePrice data / meanPrice data else 0)"

definition exactNegativePercentage :: "AlignedRecord list \<Rightarrow> real" where
  "exactNegativePercentage data =
     (if 0 < sumOutput data then 100 * sumOutput (negativeExposure data) / sumOutput data else 0)"

text \<open>A field of the result of a computation that returned one.\<close>

definition fieldOf :: "('r \<Rightarrow> 'a) \<Rightarrow> error + 'r \<Rightarrow> 'a option" where
  "fieldOf f x = (case x of Inl e \<Rightarrow> None | Inr r \<Rightarrow> Some (f r))"

text \<open>Example inputs of the KPI calculator.\<close>

definition noOptions :: Options where
  "noOptions = \<lparr>floorPrice = None, ppaPrice = None\<rparr>"

fun alternating :: "nat \<Rightarrow> int \<Rightarrow> AlignedRecord list" where
  "alternating 0 t = []"
| "alternating (Suc n) t =
     \<lparr>timestamp = t, price = 100, output_mw = 10, date = newDate (t * 1000)\<rparr>
       # \<lparr>timestamp = t + 3600, price = - 5, output_mw = 10, date = newDate ((t + 3600) * 1000)\<rparr>
       # alternating n (t + 7200)"

definition alternatingExample :: "AlignedRecord list" where
  "alternatingExample = alternating 24 0"

definition centExample :: "AlignedRecord list" where
  "centExample = [\<lparr>timestamp = 0, price = 2 / 5, output_mw = 1, date = 0\<rparr>]"

definition negativePriceExample :: "AlignedRecord list" where
  "negativePriceExample = [\<lparr>timestamp = 0, price = - 5, output_mw = 10, date = 0\<rparr>]"

definition halfExample :: "AlignedRecord list" where
  "halfExample = [\<lparr>timestamp = 0, price = 1 / 2, output_mw = 1, date = 0\<rparr>]"

text \<open>
  The histogram as the specification words it: a bin is the window of width 10 that
  starts at its lower edge; the edges run from \<open>floor(min/10) * 10\<close> to
  \<open>ceil(max/10) * 10\<close>; a bin's percentage is the share of a population's prices
  in its window, rounded to 1 decimal.
\<close>

definition inWindow :: "int \<Rightarrow> real \<Rightarrow> bool" where
  "inWindow lo p = (real_of_int lo \<le> p \<and> p < real_of_int (lo + 10))"

definition countIn :: "int \<Rightarrow> real list \<Rightarrow> nat" where
  "countIn lo ps = length (filter (inWindow lo) ps)"

definition pvHours :: "AlignedRecord list \<Rightarrow> AlignedRecord list" where
  "pvHours data = filter (\<lambda>d. output_mw d > 0) data"

definition lowEdge :: "AlignedRecord list \<Rightarrow> int" where
  "lowEdge data = \<lfloor>Min (price ` set data) / 10\<rfloor> * 10"

definition highEdge :: "AlignedRecord list \<Rightarrow> int" where
  "highEdge data = \<lceil>Max (price ` set data) / 10\<rceil> * 10"

definition distBinOf :: "AlignedRecord list \<Rightarrow> Bin \<Rightarrow> DistBin" where
  "distBinOf data b =
     \<lparr>dist_range = bin_range b,
      dist_min = bin_min b,
      allPct = roundTo 1 (100 * real (countIn (bin_min b) (map price data)) / real (length data)),
      pvPct = (if pvHours data = [] then 0
               else roundTo 1 (100 * real (countIn (bin_min b) (map price (pvHours data)))
                                 / real (length (pvHours data))))\<rparr>"

text \<open>Example inputs of the price distribution.\<close>

definition thirdsExample :: "AlignedRecord list" where
  "thirdsExample =
     [\<lparr>timestamp = 0, price = 1, output_mw = 1, date = 0\<rparr>,
      \<lparr>timestamp = 3600, price = 11, output_mw = 1, date = 3600000\<rparr>,
      \<lparr>timestamp = 7200, price = 21, output_mw = 1, date = 7200000\<rparr>]"

definition topEdgeExample :: "AlignedRecord list" where
  "topEdgeExample =
     [\<lparr>timestamp = 0, price = 0, output_mw = 1, date = 0\<rparr>,
      \<lparr>timestamp = 3600, price = 10, output_mw = 1, date = 3600000\<rparr>]"

section \<open>The engine in double arithmetic\<close>

text \<open>
  The numbers of JavaScript are IEEE 754 doubles: an addition, a subtraction, a
  multiplication or a division answers the exact result rounded to a double. The
  definitions of the sections above read the arithmetic over the reals, without the
  rounding; they agree with the engine on the inputs on which every intermediate
  result is a double. The definitions of this section spell the rounding out, and
  with it the two exceptions of the runtime that the KPI calculator can meet. They
  take the runtime as a parameter:

  \<^item> \<open>rnd\<close> is the rounding of an exact result to a double, so that \<open>a + b\<close> of
    the source is \<open>rnd (a + b)\<close>. Comparisons, \<open>Math.min\<close>, \<open>Math.max\<close>,
    \<open>Math.floor\<close>, \<open>Math.ceil\<close> and \<open>Math.round\<close> are exact on doubles, and so
    is the arithmetic of lengths, counters, indices and bin edges, which are
    integers far below \<open>2^53\<close>.
  \<^item> \<open>localOffset\<close> is the time zone: the offset, in milliseconds, of local time
    from UTC at a given time value.
  \<^item> \<open>maxArguments\<close> is the largest number of arguments that the runtime accepts
    in one call; a spread call \<open>f(...xs)\<close> with more elements throws a
    \<open>RangeError\<close>.
  \<^item> \<open>mathSqrt\<close> and \<open>mathPow\<close> are \<open>Math.sqrt\<close> and \<open>Math.pow\<close>, whose
    accuracy the language leaves to the implementation.

  A number is a real, the value of a finite double; the infinities and \<open>NaN\<close> are
  outside the reals, and where the source can produce one from finite numbers (a
  division without a guard, an array read out of range) the model answers
  \<open>Inl NotFinite\<close>.
\<close>

record Engine =
  rnd :: "real \<Rightarrow> real"
  localOffset :: "int \<Rightarrow> int"
  maxArguments :: nat
  mathSqrt :: "real \<Rightarrow> real"
  mathPow :: "real \<Rightarrow> real \<Rightarrow> real"

text \<open>
  A \<open>Date\<close> is valid when its time value is within 8.64e15 milliseconds of the
  epoch. Otherwise it is the \<open>Invalid Date\<close>: \<open>getFullYear\<close>, \<open>getMonth\<close> and
  \<open>getHours\<close> answer \<open>NaN\<close>, and the month key is the string \<open>NaN-NaN\<close>.
\<close>

definition validDate :: "int \<Rightarrow> bool" where
  "validDate d = (\<bar>d\<bar> \<le> 8640000000000000)"

definition monthKeyD :: "Engine \<Rightarrow> int \<Rightarrow> string" where
  "monthKeyD e d = (if validDate d then monthKey (localOffset e) d else ''NaN-NaN'')"

definition jsdivD :: "Engine \<Rightarrow> real \<Rightarrow> real \<Rightarrow> error + real" where
  "jsdivD e a b = (if b = 0 then Inl NotFinite else Inr (rnd e (a / b)))"

subsection \<open>Utilities\<close>

definition calculateMeanD :: "Engine \<Rightarrow> real list \<Rightarrow> real" where
  "calculateMeanD e vals =
     (if length vals = 0 then 0
      else rnd e (foldl (\<lambda>a b. rnd e (a + b)) 0 vals / real (length vals)))"

definition calculateStdDevD :: "Engine \<Rightarrow> real list \<Rightarrow> real" where
  "calculateStdDevD e vals =
     (if length vals = 0 then 0
      else (let mean = calculateMeanD e vals;
                squaredDiffs = map (\<lambda>v. mathPow e (rnd e (v - mean)) 2) vals
            in mathSqrt e (calculateMeanD e squaredDiffs)))"

text \<open>
  \<open>percentile(sortedArr, p)\<close>. The subtraction \<open>sortedArr.length - 1\<close> is one of
  integers.
\<close>

definition percentileD :: "Engine \<Rightarrow> real list \<Rightarrow> real \<Rightarrow> error + real" where
  "percentileD e sortedArr p =
     (if length sortedArr = 0 then Inr 0
      else (let idx = rnd e (rnd e (p / 100) * (real (length sortedArr) - 1));
                lower = \<lfloor>idx\<rfloor>;
                upper = \<lceil>idx\<rceil>
            in if lower = upper then readNum sortedArr lower
               else (case readNum sortedArr lower of
                       Inl err \<Rightarrow> Inl err
                     | Inr a \<Rightarrow>
                         (case readNum sortedArr upper of
                            Inl err \<Rightarrow> Inl err
                          | Inr b \<Rightarrow>
                              Inr (rnd e (rnd e (a * rnd e (real_of_int upper - idx))
                                          + rnd e (b * rnd e (idx - real_of_int lower))))))))"

subsection \<open>Monthly revenues and risk metrics\<close>

definition calculateMonthlyRevenuesD :: "Engine \<Rightarrow> AlignedRecord list \<Rightarrow> MonthlyRevenue list" where
  "calculateMonthlyRevenuesD e data =
     (let monthlyMap =
            foldl (\<lambda>m d. upsert (monthKeyD e (date d)) \<lparr>acc_revenue = 0, acc_production = 0\<rparr>
                     (\<lambda>a. \<lparr>acc_revenue = rnd e (acc_revenue a + rnd e (price d * output_mw d)),
                           acc_production = rnd e (acc_production a + output_mw d)\<rparr>) m)
              [] data
      in sort_key month
           (map (\<lambda>(k, a). \<lparr>month = k, revenue = acc_revenue a, production = acc_production a\<rparr>)
              monthlyMap))"

text \<open>
  \<open>revenues.sort((a, b) => a - b)\<close>: the difference of two doubles has the sign of
  their comparison, so the sort is the one by value.
\<close>

definition calculateRiskMetricsD :: "Engine \<Rightarrow> MonthlyRevenue list \<Rightarrow> error + RiskMetrics" where
  "calculateRiskMetricsD e monthlyRevenues =
     (let revenues = map revenue monthlyRevenues
      in if length revenues = 0 then Inr \<lparr>p5 = 0, p50 = 0, p95 = 0\<rparr>
         else (let sortedRevenues = sort revenues
               in case percentileD e sortedRevenues 5 of
                    Inl err \<Rightarrow> Inl err
                  | Inr a \<Rightarrow>
                      (case percentileD e sortedRevenues 50 of
                         Inl err \<Rightarrow> Inl err
                       | Inr b \<Rightarrow>
                           (case percentileD e sortedRevenues 95 of
                              Inl err \<Rightarrow> Inl err
                            | Inr c \<Rightarrow>
                                Inr \<lparr>p5 = Math_round a, p50 = Math_round b, p95 = Math_round c\<rparr>))))"

subsection \<open>Monthly capture rates\<close>

definition captureRateOfMonthD :: "Engine \<Rightarrow> string \<times> CaptureAcc \<Rightarrow> error + MonthlyCaptureRate" where
  "captureRateOfMonthD e entry =
     (case entry of
        (k, a) \<Rightarrow>
          (case jsdivD e (priceSum a) (real (count a)) of
             Inl err \<Rightarrow> Inl err
           | Inr baseload' \<Rightarrow>
               (let capture' = (if outputSum a > 0 then rnd e (weightedPriceSum a / outputSum a) else 0);
                    rate' = (if baseload' > 0 then rnd e (rnd e (capture' / baseload') * 100) else 0)
                in Inr \<lparr>month = k,
                         baseload = rnd e (real_of_int (Math_round (rnd e (baseload' * 100))) / 100),
                         capture = rnd e (real_of_int (Math_round (rnd e (capture' * 100))) / 100),
                         rate = rnd e (real_of_int (Math_round (rnd e (rate' * 10))) / 10)\<rparr>)))"

definition captureMapD :: "Engine \<Rightarrow> AlignedRecord list \<Rightarrow> (string \<times> CaptureAcc) list" where
  "captureMapD e data =
     foldl (\<lambda>m d. upsert (monthKeyD e (date d))
                     \<lparr>priceSum = 0, weightedPriceSum = 0, outputSum = 0, count = 0\<rparr>
                     (\<lambda>a. \<lparr>priceSum = rnd e (priceSum a + price d),
                           weightedPriceSum = rnd e (weightedPriceSum a + rnd e (price d * output_mw d)),
                           outputSum = rnd e (outputSum a + output_mw d),
                           count = count a + 1\<rparr>) m)
       [] data"

definition calculateMonthlyCaptureRatesD ::
    "Engine \<Rightarrow> AlignedRecord list \<Rightarrow> error + MonthlyCaptureRate list" where
  "calculateMonthlyCaptureRatesD e data =
     (case mapE (captureRateOfMonthD e) (captureMapD e data) of
        Inl err \<Rightarrow> Inl err
      | Inr rates \<Rightarrow> Inr (sort_key month rates))"

subsection \<open>Price distribution\<close>

definition binPercentagesD :: "Engine \<Rightarrow> nat \<Rightarrow> nat \<Rightarrow> Bin \<Rightarrow> error + DistBin" where
  "binPercentagesD e allTotal pvTotal b =
     (case jsdivD e (real (allCount b)) (real allTotal) of
        Inl err \<Rightarrow> Inl err
      | Inr q \<Rightarrow>
          Inr \<lparr>dist_range = bin_range b,
               dist_min = bin_min b,
               allPct = rnd e (real_of_int (Math_round (rnd e (q * 1000))) / 10),
               pvPct = (if pvTotal > 0
                        then rnd e (real_of_int
                               (Math_round (rnd e (rnd e (real (pvCount b) / real pvTotal) * 1000))) / 10)
                        else 0)\<rparr>)"

definition priceBinsD :: "Engine \<Rightarrow> real \<Rightarrow> real list \<Rightarrow> Bin list" where
  "priceBinsD e p0 rest =
     binsLoop (\<lfloor>rnd e (foldl min p0 rest / 10)\<rfloor> * 10) (\<lceil>rnd e (foldl max p0 rest / 10)\<rceil> * 10)"

text \<open>
  \<open>Math.min(...allPrices)\<close> passes every price as an argument of one call: it throws
  a \<open>RangeError\<close> when the series is longer than the runtime accepts.
\<close>

definition calculatePriceDistributionD :: "Engine \<Rightarrow> AlignedRecord list \<Rightarrow> error + DistBin list" where
  "calculatePriceDistributionD e data =
     (let allPrices = map price data;
          pvPrices = map price (filter (\<lambda>d. output_mw d > 0) data)
      in if maxArguments e < length allPrices then Inl RangeError
         else (case allPrices of
                 [] \<Rightarrow> Inr []
               | p0 # rest \<Rightarrow>
                   mapE (binPercentagesD e (length allPrices) (length pvPrices))
                     (fillPv (fillAll (priceBinsD e p0 rest) allPrices) pvPrices)))"

subsection \<open>Negative price heatmap\<close>

text \<open>
  Of an \<open>Invalid Date\<close> the month is \<open>NaN\<close>: \<open>counts[month]\<close> is \<open>undefined\<close>
  and \<open>counts[month][hour]++\<close> throws a \<open>TypeError\<close>.
\<close>

definition heatmapStepD ::
    "Engine \<Rightarrow> nat list list \<times> nat list list \<Rightarrow> AlignedRecord
      \<Rightarrow> error + nat list list \<times> nat list list" where
  "heatmapStepD e st d =
     (if output_mw d > 0 \<and> \<not> validDate (date d) then Inl TypeError
      else heatmapStep (localOffset e) st d)"

definition calculateNegativeHeatmapD :: "Engine \<Rightarrow> AlignedRecord list \<Rightarrow> error + Heatmap" where
  "calculateNegativeHeatmapD e data =
     (case foldE (heatmapStepD e) (replicate 12 (replicate 24 0), replicate 12 (replicate 24 0)) data of
        Inl err \<Rightarrow> Inl err
      | Inr (hm, cn) \<Rightarrow> Inr \<lparr>heatmap = hm, counts = cn, maxCount = findMaxCount hm\<rparr>)"

subsection \<open>The KPIs\<close>

definition calculateKPIsD ::
    "Engine \<Rightarrow> AlignedRecord list option \<Rightarrow> real \<Rightarrow> Options \<Rightarrow> error + KPIResult" where
  "calculateKPIsD e dataArg capacityMW options =
     (case dataArg of
        None \<Rightarrow> Inl NoData
      | Some data \<Rightarrow>
          if length data = 0 then Inl NoData
          else
           (let baseloadAvg' = calculateMeanD e (map price data);
                totalProduction' = foldl (\<lambda>sum d. rnd e (sum + output_mw d)) 0 data;
                weightedSum = foldl (\<lambda>sum d. rnd e (sum + rnd e (price d * output_mw d))) 0 data;
                capturePrice' =
                  (if totalProduction' > 0 then rnd e (weightedSum / totalProduction') else 0);
                captureRate' =
                  (if baseloadAvg' > 0 then rnd e (rnd e (capturePrice' / baseloadAvg') * 100) else 0);
                negativeHours = filter (\<lambda>d. price d < 0 \<and> output_mw d > 0) data;
                negativeHoursCount' = length negativeHours;
                negativeMWh' = foldl (\<lambda>sum d. rnd e (sum + output_mw d)) 0 negativeHours;
                negativePercentage' =
                  (if totalProduction' > 0
                   then rnd e (rnd e (negativeMWh' / totalProduction') * 100) else 0);
                merchantRevenue' =
                  foldl (\<lambda>sum d. rnd e (sum + rnd e (effectivePrice options d * output_mw d))) 0 data;
                ppaRevenue' =
                  (case ppaPrice options of
                     None \<Rightarrow> None
                   | Some pp \<Rightarrow> Some (rnd e (totalProduction' * pp)));
                monthlyRevenues = calculateMonthlyRevenuesD e data
            in case calculateRiskMetricsD e monthlyRevenues of
                 Inl err \<Rightarrow> Inl err
               | Inr riskMetrics' \<Rightarrow>
              (case calculateMonthlyCaptureRatesD e data of
                 Inl err \<Rightarrow> Inl err
               | Inr monthlyCaptureRates' \<Rightarrow>
              (case calculatePriceDistributionD e data of
                 Inl err \<Rightarrow> Inl err
               | Inr priceDistribution' \<Rightarrow>
              (case calculateNegativeHeatmapD e data of
                 Inl err \<Rightarrow> Inl err
               | Inr negativeHeatmap' \<Rightarrow>
                   Inr \<lparr>baseloadAvg =
                          rnd e (real_of_int (Math_round (rnd e (baseloadAvg' * 100))) / 100),
                        capturePrice =
                          rnd e (real_of_int (Math_round (rnd e (capturePrice' * 100))) / 100),
                        captureRate =
                          rnd e (real_of_int (Math_round (rnd e (captureRate' * 10))) / 10),
                        negativeHoursCount = negativeHoursCount',
                        negativeMWh = Math_round negativeMWh',
                        negativePercentage =
                          rnd e (real_of_int (Math_round (rnd e (negativePercentage' * 10))) / 10),
                        totalProduction = Math_round totalProduction',
                        merchantRevenue = Math_round merchantRevenue',
                        ppaRevenue = map_option Math_round ppaRevenue',
                        riskMetrics = riskMetrics',
                        monthlyCaptureRates = monthlyCaptureRates',
                        priceDistribution = priceDistribution',
                        negativeHeatmap = negativeHeatmap',
                        dataPoints = length data\<rparr>)))))"

subsection \<open>Representative weeks\<close>

definition calculateWeekCaptureRateD :: "Engine \<Rightarrow> AlignedRecord list \<Rightarrow> real" where
  "calculateWeekCaptureRateD e weekData =
     (let totalOutput = foldl (\<lambda>s d. rnd e (s + output_mw d)) 0 weekData
      in if totalOutput = 0 then 0
         else (let weightedSum = foldl (\<lambda>s d. rnd e (s + rnd e (price d * output_mw d))) 0 weekData;
                   capturePrice' = rnd e (weightedSum / totalOutput);
                   avgPrice = calculateMeanD e (map price weekData)
               in if avgPrice > 0 then rnd e (capturePrice' / avgPrice) else 0))"

text \<open>The body of \<open>weeks.map\<close>. \<open>week[0].date\<close> throws on an empty week.\<close>

definition weekMetricD :: "Engine \<Rightarrow> AlignedRecord list \<Rightarrow> error + WeekMetrics" where
  "weekMetricD e week =
     (case week of
        [] \<Rightarrow> Inl TypeError
      | d0 # rest \<Rightarrow>
          Inr \<lparr>week_data = week,
               startDate = date d0,
               volatility = calculateStdDevD e (map price week),
               negativeHours = length (filter (\<lambda>d. price d < 0 \<and> output_mw d > 0) week),
               avgCapture = calculateWeekCaptureRateD e week\<rparr>)"

text \<open>
  \<open>[...weekMetrics].sort((a, b) => a.volatility - b.volatility)\<close> and
  \<open>[...weekMetrics].sort((a, b) => b.negativeHours - a.negativeHours)\<close> are stable
  sorts, by the volatility and by the negative hours in descending order.
\<close>

definition findRepresentativeWeeksD :: "Engine \<Rightarrow> AlignedRecord list \<Rightarrow> error + RepresentativeWeeks" where
  "findRepresentativeWeeksD e data =
     (case mapE (weekMetricD e) (groupByWeek data) of
        Inl err \<Rightarrow> Inl err
      | Inr weekMetrics \<Rightarrow>
          (let sortedByVolatility = sort_key volatility weekMetrics;
               medianIdx = int (length sortedByVolatility) div 2;
               sortedByNegative = sort_key (\<lambda>w. - int (negativeHours w)) weekMetrics
           in Inr \<lparr>typical = readAt sortedByVolatility medianIdx,
                    volatile = readAt sortedByVolatility (int (length sortedByVolatility) - 1),
                    negative = readAt sortedByNegative 0\<rparr>))"

subsection \<open>Reference definitions in double arithmetic\<close>

text \<open>
  The laws of the rounding that the proofs use: it is monotone, and it leaves the
  natural numbers up to \<open>2^53\<close> as they are. Both hold of the rounding to the
  nearest double.
\<close>

definition roundingLaws :: "Engine \<Rightarrow> bool" where
  "roundingLaws e =
     (mono (rnd e) \<and> (\<forall>k::nat. k \<le> 2 ^ 53 \<longrightarrow> rnd e (real k) = real k))"

text \<open>
  The quantities of the KPI calculator as the specification writes them, evaluated
  in the arithmetic of the engine: a sum is accumulated from 0, from left to right,
  and every product, sum and quotient is rounded to a double.
\<close>

definition sumD :: "Engine \<Rightarrow> real list \<Rightarrow> real" where
  "sumD e xs = foldl (\<lambda>s x. rnd e (s + x)) 0 xs"

definition meanPriceD :: "Engine \<Rightarrow> AlignedRecord list \<Rightarrow> real" where
  "meanPriceD e data = rnd e (sumD e (map price data) / real (length data))"

definition productionD :: "Engine \<Rightarrow> AlignedRecord list \<Rightarrow> real" where
  "productionD e data = sumD e (map output_mw data)"

definition revenueD :: "Engine \<Rightarrow> AlignedRecord list \<Rightarrow> real" where
  "revenueD e data = sumD e (map (\<lambda>d. rnd e (price d * output_mw d)) data)"

definition merchantD :: "Engine \<Rightarrow> Options \<Rightarrow> AlignedRecord list \<Rightarrow> real" where
  "merchantD e options data =
     sumD e (map (\<lambda>d. rnd e (effectivePrice options d * output_mw d)) data)"

definition capturePriceD :: "Engine \<Rightarrow> AlignedRecord list \<Rightarrow> real" where
  "capturePriceD e data =
     (if 0 < productionD e data then rnd e (revenueD e data / productionD e data) else 0)"

definition captureRateD :: "Engine \<Rightarrow> AlignedRecord list \<Rightarrow> real" where
  "captureRateD e data =
     (if 0 < meanPriceD e data
      then rnd e (rnd e (capturePriceD e data / meanPriceD e data) * 100) else 0)"

definition negativeShareD :: "Engine \<Rightarrow> AlignedRecord list \<Rightarrow> real" where
  "negativeShareD e data =
     (if 0 < productionD e data
      then rnd e (rnd e (productionD e (negativeExposure data) / productionD e data) * 100)
      else 0)"

text \<open>
  Rounding to \<open>k\<close> decimals as the engine does it, \<open>Math.round(x * 10^k) / 10^k\<close>:
  the scaling and the division are rounded to doubles, \<open>Math.round\<close> is exact.
\<close>

definition roundedD :: "Engine \<Rightarrow> nat \<Rightarrow> real \<Rightarrow> real" where
  "roundedD e k x = rnd e (real_of_int (Math_round (rnd e (x * 10 ^ k))) / 10 ^ k)"

text \<open>
  The population standard deviation of a list (the root of the mean of the squared
  deviations from the mean, dividing by the number of values) in the arithmetic of
  the engine.
\<close>

definition stdDevD :: "Engine \<Rightarrow> real list \<Rightarrow> real" where
  "stdDevD e xs =
     (let n = real (length xs);
          mu = rnd e (sumD e xs / n)
      in mathSqrt e (rnd e (sumD e (map (\<lambda>x. mathPow e (rnd e (x - mu)) 2) xs) / n)))"

text \<open>
  The histogram as the specification words it, in the arithmetic of the engine: the
  edges run from \<open>floor(min/10) * 10\<close> to \<open>ceil(max/10) * 10\<close>, and the
  percentage of a bin is the share of a population's prices in its window, to 1
  decimal: \<open>Math.round((count / total) * 1000) / 10\<close>.
\<close>

definition lowEdgeD :: "Engine \<Rightarrow> AlignedRecord list \<Rightarrow> int" where
  "lowEdgeD e data = \<lfloor>rnd e (Min (price ` set data) / 10)\<rfloor> * 10"

definition highEdgeD :: "Engine \<Rightarrow> AlignedRecord list \<Rightarrow> int" where
  "highEdgeD e data = \<lceil>rnd e (Max (price ` set data) / 10)\<rceil> * 10"

definition shareD :: "Engine \<Rightarrow> nat \<Rightarrow> nat \<Rightarrow> real" where
  "shareD e c n =
     rnd e (real_of_int (Math_round (rnd e (rnd e (real c / real n) * 1000))) / 10)"

definition distBinOfD :: "Engine \<Rightarrow> AlignedRecord list \<Rightarrow> Bin \<Rightarrow> DistBin" where
  "distBinOfD e data b =
     \<lparr>dist_range = bin_range b,
      dist_min = bin_min b,
      allPct = shareD e (countIn (bin_min b) (map price data)) (length data),
      pvPct = (if pvHours data = [] then 0
               else shareD e (countIn (bin_min b) (map price (pvHours data)))
                      (length (pvHours data)))\<rparr>"

text \<open>
  An engine for the examples: the time zone is UTC, a call takes at most 65536
  arguments, and the arithmetic is exact. The prices and outputs of the examples
  below are chosen so that every intermediate result is a double, on which the
  rounding to doubles is exact as well.
\<close>

definition exampleEngine :: Engine where
  "exampleEngine =
     \<lparr>rnd = (\<lambda>x. x), localOffset = utc, maxArguments = 65536,
      mathSqrt = sqrt, mathPow = (\<lambda>x y. x ^ nat \<lfloor>y\<rfloor>)\<rparr>"

text \<open>
  Example inputs of the KPI calculator in double arithmetic: a series longer than the
  engine's calls accept; four hours of one month with a floor price and a PPA price;
  three hours of one month at price 7; four hours for the histogram.
\<close>

definition longSeries :: "AlignedRecord list" where
  "longSeries =
     map (\<lambda>i. \<lparr>timestamp = 3600 * int i, price = 50, output_mw = 1,
                 date = newDate (3600 * int i * 1000)\<rparr>) [0..<130000]"

definition kpiExample :: "AlignedRecord list" where
  "kpiExample =
     [\<lparr>timestamp = 0, price = 10, output_mw = 2, date = 0\<rparr>,
      \<lparr>timestamp = 3600, price = 20, output_mw = 11 / 2, date = 3600000\<rparr>,
      \<lparr>timestamp = 7200, price = 38, output_mw = 0, date = 7200000\<rparr>,
      \<lparr>timestamp = 10800, price = - 4, output_mw = 5 / 2, date = 10800000\<rparr>]"

definition kpiOptions :: Options where
  "kpiOptions = \<lparr>floorPrice = Some 0, ppaPrice = Some 50\<rparr>"

definition monthExample :: "AlignedRecord list" where
  "monthExample =
     [\<lparr>timestamp = 0, price = 7, output_mw = 5 / 2, date = 0\<rparr>,
      \<lparr>timestamp = 3600, price = 7, output_mw = 1, date = 3600000\<rparr>,
      \<lparr>timestamp = 7200, price = 7, output_mw = 1, date = 7200000\<rparr>]"

definition histogramExample :: "AlignedRecord list" where
  "histogramExample =
     [\<lparr>timestamp = 0, price = 5, output_mw = 1, date = 0\<rparr>,
      \<lparr>timestamp = 3600, price = 15, output_mw = 0, date = 3600000\<rparr>,
      \<lparr>timestamp = 7200, price = 35 / 2, output_mw = 0, date = 7200000\<rparr>,
      \<lparr>timestamp = 10800, price = 25, output_mw = 1, date = 10800000\<rparr>]"

text \<open>
  Example inputs of the representative period selector: hourly records, all with
  output 1, from a list of prices. The first series has a week of prices alternating
  between 0 and 4, a week of the constant price 5 and a remainder of 130 hours
  alternating between 0 and 2; the second has a week of the constant price 5, a week
  alternating between 0 and 2 and a remainder of 50 hours.
\<close>

definition hourly :: "real list \<Rightarrow> AlignedRecord list" where
  "hourly ps =
     map (\<lambda>(i, p). \<lparr>timestamp = 3600 * int i, price = p, output_mw = 1,
                      date = newDate (3600 * int i * 1000)\<rparr>) (enumerate 0 ps)"

definition weeksExample :: "AlignedRecord list" where
  "weeksExample =
     hourly (concat (replicate 84 [0, 4]) @ replicate 168 5 @ concat (replicate 65 [0, 2]))"

definition shortTailExample :: "AlignedRecord list" where
  "shortTailExample =
     hourly (replicate 168 5 @ concat (replicate 84 [0, 2]) @ replicate 50 7)"

text \<open>
  The accuracy of the rounding to the nearest double: the result of rounding a
  number of magnitude at least \<open>m\<close> differs from it by at most the fraction
  \<open>u\<close> of its magnitude. For doubles \<open>u\<close> is \<open>2^-53\<close> and \<open>m\<close> is
  \<open>2^-1022\<close>, the smallest normal double. The model has no overflow.
\<close>

definition accurateRounding :: "Engine \<Rightarrow> real \<Rightarrow> real \<Rightarrow> bool" where
  "accurateRounding e u m =
     (0 \<le> u \<and> u < 1 \<and> 0 < m \<and> m \<le> 1 / 100
      \<and> (\<forall>x. m \<le> \<bar>x\<bar> \<longrightarrow> \<bar>rnd e x - x\<bar> \<le> u * \<bar>x\<bar>))"

text \<open>
  The factor by which one rounding can change a number, and closeness up to \<open>k\<close>
  roundings: \<open>x\<close> is \<open>y\<close> times a factor between \<open>1 / rho^k\<close> and
  \<open>rho^k\<close>.
\<close>

definition spread :: "real \<Rightarrow> real" where
  "spread u = (1 + u) / (1 - u)"

definition closeTo :: "real \<Rightarrow> nat \<Rightarrow> real \<Rightarrow> real \<Rightarrow> bool" where
  "closeTo rho k x y = (\<exists>f. 1 / rho ^ k \<le> f \<and> f \<le> rho ^ k \<and> x = f * y)"

text \<open>Three hours at the price 0.375, one of them without production.\<close>

definition uniformExample :: "AlignedRecord list" where
  "uniformExample =
     [\<lparr>timestamp = 0, price = 3 / 8, output_mw = 1 / 2, date = 0\<rparr>,
      \<lparr>timestamp = 3600, price = 3 / 8, output_mw = 0, date = 3600000\<rparr>,
      \<lparr>timestamp = 7200, price = 3 / 8, output_mw = 3 / 2, date = 7200000\<rparr>]"

section \<open>Properties of the aligner\<close>

lemma set_foldl_setAdd: "set (foldl setAdd acc xs) = set acc \<union> set xs"
  by (induction xs arbitrary: acc) (auto simp: setAdd_def)

lemma distinct_foldl_setAdd: "distinct acc \<Longrightarrow> distinct (foldl setAdd acc xs)"
  by (induction xs arbitrary: acc) (auto simp: setAdd_def)

lemma set_newSet: "set (newSet xs) = set xs"
  by (simp add: newSet_def set_foldl_setAdd)

lemma distinct_newSet: "distinct (newSet xs)"
  by (simp add: newSet_def distinct_foldl_setAdd)

lemma dom_foldl_upd:
  "dom (foldl (\<lambda>m p. m(k p \<mapsto> v p)) m0 xs) = dom m0 \<union> k ` set xs"
  by (induction xs arbitrary: m0) auto

lemma map_timestamp_alignedLoop:
  "map timestamp (alignedLoop pm vm tss) = filter (\<lambda>ts. ts \<in> dom pm \<and> ts \<in> dom vm) tss"
  by (induction tss) (auto split: option.splits)

lemma timestamps_alignedLoop:
  "timestamp ` set (alignedLoop pm vm tss) = {ts \<in> set tss. ts \<in> dom pm \<and> ts \<in> dom vm}"
proof -
  have "timestamp ` set (alignedLoop pm vm tss) = set (map timestamp (alignedLoop pm vm tss))"
    by simp
  also have "\<dots> = {ts \<in> set tss. ts \<in> dom pm \<and> ts \<in> dom vm}"
    unfolding map_timestamp_alignedLoop by simp
  finally show ?thesis .
qed

lemma set_timestamps_alignData:
  "set (map timestamp (alignData prices pvProfile)) =
     timestamp ` set prices \<inter> pv_timestamp ` set pvProfile"
  by (auto simp: alignData_def Let_def timestamps_alignedLoop set_newSet dom_foldl_upd)

lemma distinct_timestamps_alignData:
  "distinct (map timestamp (alignData prices pvProfile))"
proof -
  let ?xs = "alignedLoop
        (foldl (\<lambda>m p. m(timestamp p \<mapsto> price p)) Map.empty prices)
        (foldl (\<lambda>m p. m(pv_timestamp p \<mapsto> pv_output p)) Map.empty pvProfile)
        (newSet (map timestamp prices @ map pv_timestamp pvProfile))"
  have "distinct (map timestamp ?xs)"
    unfolding map_timestamp_alignedLoop by (simp add: distinct_newSet)
  then have "distinct (map timestamp (sort_key timestamp ?xs))"
    by (simp add: distinct_map)
  then show ?thesis
    by (simp add: alignData_def Let_def)
qed

lemma sorted_timestamps_alignData:
  "sorted (map timestamp (alignData prices pvProfile))"
  by (simp add: alignData_def Let_def)

lemma length_alignData_le:
  "length (alignData prices pvProfile) \<le> min (length prices) (length pvProfile)"
proof -
  let ?ts = "map timestamp (alignData prices pvProfile)"
  have "card (set ?ts) = length ?ts"
    by (rule distinct_card) (rule distinct_timestamps_alignData)
  then have len: "length (alignData prices pvProfile) = card (set ?ts)"
    by simp
  have "card (set ?ts) \<le> card (timestamp ` set prices)"
    unfolding set_timestamps_alignData by (rule card_mono) simp_all
  also have "\<dots> \<le> card (set prices)"
    by (rule card_image_le) simp
  also have "\<dots> \<le> length prices"
    by (rule card_length)
  finally have a: "card (set ?ts) \<le> length prices" .
  have "card (set ?ts) \<le> card (pv_timestamp ` set pvProfile)"
    unfolding set_timestamps_alignData by (rule card_mono) simp_all
  also have "\<dots> \<le> card (set pvProfile)"
    by (rule card_image_le) simp
  also have "\<dots> \<le> length pvProfile"
    by (rule card_length)
  finally have b: "card (set ?ts) \<le> length pvProfile" .
  from a b len show ?thesis by simp
qed

text \<open>
  Claim C1. For any two input sequences, the timestamps of \<open>alignData\<close>'s result are
  exactly the timestamps common to both inputs, in ascending order and without
  duplicates; the result is no longer than the shorter input; and it is empty exactly
  when the inputs share no timestamp.
\<close>

theorem alignData_is_sorted_intersection:
  "set (map timestamp (alignData prices pvProfile)) =
       timestamp ` set prices \<inter> pv_timestamp ` set pvProfile
   \<and> sorted (map timestamp (alignData prices pvProfile))
   \<and> distinct (map timestamp (alignData prices pvProfile))
   \<and> length (alignData prices pvProfile) \<le> min (length prices) (length pvProfile)
   \<and> ((alignData prices pvProfile = []) =
        (timestamp ` set prices \<inter> pv_timestamp ` set pvProfile = {}))"
proof -
  have "(alignData prices pvProfile = []) =
        (set (map timestamp (alignData prices pvProfile)) = {})"
    by simp
  then have e: "(alignData prices pvProfile = []) =
        (timestamp ` set prices \<inter> pv_timestamp ` set pvProfile = {})"
    unfolding set_timestamps_alignData .
  show ?thesis
    by (intro conjI set_timestamps_alignData sorted_timestamps_alignData
      distinct_timestamps_alignData length_alignData_le e)
qed

section \<open>Properties of the representative period selector\<close>

declare weekWindows.simps [simp del]

lemma mapE_Inr_all2:
  "mapE f xs = Inr ys \<Longrightarrow> list_all2 (\<lambda>x y. f x = Inr y) xs ys"
proof (induction xs arbitrary: ys)
  case Nil
  then show ?case by auto
next
  case (Cons x xs)
  then show ?case
    by (cases ys) (auto split: sum.splits)
qed

lemma mapE_total:
  "(\<And>x. x \<in> set xs \<Longrightarrow> \<exists>y. f x = Inr y) \<Longrightarrow> \<exists>ys. mapE f xs = Inr ys"
proof (induction xs)
  case Nil
  then show ?case by simp
next
  case (Cons x xs)
  then obtain y where y: "f x = Inr y" by auto
  from Cons obtain ys where "mapE f xs = Inr ys" by auto
  with y show ?case by simp
qed

lemma foldl_weekStep_short:
  "length cur + length xs \<le> 168 \<Longrightarrow> foldl weekStep (ws, cur) xs = (ws, cur @ xs)"
  by (induction xs arbitrary: cur) (auto simp: weekStep_def)

lemma foldl_weekStep_full:
  "length cur = 168 \<Longrightarrow>
     foldl weekStep (ws, cur) (y # ys) = foldl weekStep (ws @ [cur], []) (y # ys)"
  by (auto simp: weekStep_def)

lemma foldl_weekStep_long:
  assumes "length xs > 168"
  shows "foldl weekStep (ws, []) xs = foldl weekStep (ws @ [take 168 xs], []) (drop 168 xs)"
proof -
  from assms obtain y ys where d: "drop 168 xs = y # ys"
    by (cases "drop 168 xs") auto
  define t where "t = take 168 xs"
  have l: "length t = 168" using assms by (simp add: t_def)
  have "foldl weekStep (ws, []) xs = foldl weekStep (ws, []) (t @ drop 168 xs)"
    by (simp add: t_def)
  also have "\<dots> = foldl weekStep (foldl weekStep (ws, []) t) (drop 168 xs)"
    by (simp only: foldl_append)
  also have "foldl weekStep (ws, []) t = (ws, t)"
    using foldl_weekStep_short[of "[]" t ws] l by simp
  also have "foldl weekStep (ws, t) (drop 168 xs) = foldl weekStep (ws @ [t], []) (drop 168 xs)"
    unfolding d by (rule foldl_weekStep_full[OF l])
  finally show ?thesis by (simp add: t_def)
qed

lemma groupByWeek_acc:
  "(case foldl weekStep (ws, []) xs of
      (weeks, currentWeek) \<Rightarrow> if length currentWeek \<ge> 120 then weeks @ [currentWeek] else weeks)
   = ws @ weekWindows xs"
proof (induction xs arbitrary: ws rule: weekWindows.induct)
  case (1 xs)
  show ?case
  proof (cases "length xs > 168")
    case True
    then show ?thesis
      using "1.IH"[OF True, of "ws @ [take 168 xs]"]
      by (subst weekWindows.simps) (simp add: foldl_weekStep_long)
  next
    case False
    then have "foldl weekStep (ws, []) xs = (ws, xs)"
      using foldl_weekStep_short[of "[]" xs ws] by simp
    with False show ?thesis
      by (subst weekWindows.simps) simp
  qed
qed

lemma groupByWeek_weekWindows: "groupByWeek data = weekWindows data"
  using groupByWeek_acc[of "[]" data] by (simp add: groupByWeek_def)

lemma weekWindows_lengths:
  "w \<in> set (weekWindows xs) \<Longrightarrow> 120 \<le> length w \<and> length w \<le> 168"
proof (induction xs rule: weekWindows.induct)
  case (1 xs)
  from "1.prems" show ?case
    by (subst (asm) weekWindows.simps) (auto split: if_splits dest: "1.IH")
qed

lemma weekWindows_nonempty: "120 \<le> length xs \<Longrightarrow> weekWindows xs \<noteq> []"
  by (subst weekWindows.simps) simp

lemma concat_weekWindows:
  "\<exists>rest. xs = concat (weekWindows xs) @ rest \<and> length rest < 120"
proof (induction xs rule: weekWindows.induct)
  case (1 xs)
  show ?case
  proof (cases "length xs > 168")
    case True
    from "1.IH"[OF True] obtain rest where
      r: "drop 168 xs = concat (weekWindows (drop 168 xs)) @ rest" "length rest < 120"
      by blast
    have ww: "weekWindows xs = take 168 xs # weekWindows (drop 168 xs)"
      using True by (subst weekWindows.simps) simp
    have "concat (weekWindows xs) @ rest =
        take 168 xs @ (concat (weekWindows (drop 168 xs)) @ rest)"
      by (simp add: ww)
    also have "\<dots> = take 168 xs @ drop 168 xs"
      using r(1) by simp
    also have "\<dots> = xs" by simp
    finally have "xs = concat (weekWindows xs) @ rest" by simp
    then show ?thesis using r(2) by blast
  next
    case False
    then show ?thesis
      by (subst weekWindows.simps) (cases "120 \<le> length xs"; simp)
  qed
qed

lemma all2_member:
  "list_all2 P xs ys \<Longrightarrow> y \<in> set ys \<Longrightarrow> \<exists>x \<in> set xs. P x y"
  by (induction rule: list_all2_induct) auto

lemma readAt_nth: "i < length arr \<Longrightarrow> readAt arr (int i) = Some (arr ! i)"
  by (simp add: readAt_def)

section \<open>Properties of the battery simulator\<close>

lemma upsert_invariant:
  assumes "\<And>k' v. (k', v) \<in> set m \<Longrightarrow> P k' v"
    and "P k (f i)"
    and "\<And>v. P k v \<Longrightarrow> P k (f v)"
    and "(k', v) \<in> set (upsert k i f m)"
  shows "P k' v"
  using assms
proof (induction m)
  case Nil
  then show ?case by simp
next
  case (Cons a m)
  obtain ka va where a: "a = (ka, va)" by (cases a)
  show ?case
  proof (cases "k = ka")
    case True
    with Cons.prems(4) a have "(k', v) = (ka, f va) \<or> (k', v) \<in> set m" by simp
    then show ?thesis
    proof
      assume "(k', v) = (ka, f va)"
      moreover have "P ka va" using Cons.prems(1)[of ka va] a by simp
      ultimately show ?thesis using Cons.prems(3)[of va] True by simp
    next
      assume "(k', v) \<in> set m"
      then show ?thesis using Cons.prems(1)[of k' v] by simp
    qed
  next
    case False
    with Cons.prems(4) a have "(k', v) = (ka, va) \<or> (k', v) \<in> set (upsert k i f m)" by simp
    then show ?thesis
    proof
      assume "(k', v) = (ka, va)"
      then show ?thesis using Cons.prems(1)[of ka va] a by simp
    next
      assume m: "(k', v) \<in> set (upsert k i f m)"
      show ?thesis
        by (rule Cons.IH[OF _ Cons.prems(2) Cons.prems(3) m]) (simp add: Cons.prems(1))
    qed
  qed
qed

lemma foldl_upsert_invariant:
  assumes "\<And>k' v. (k', v) \<in> set m \<Longrightarrow> P k' v"
    and "\<And>d. d \<in> set xs \<Longrightarrow> P (key d) (f d i)"
    and "\<And>d v. d \<in> set xs \<Longrightarrow> P (key d) v \<Longrightarrow> P (key d) (f d v)"
    and "(k', v) \<in> set (foldl (\<lambda>m d. upsert (key d) i (f d) m) m xs)"
  shows "P k' v"
  using assms
proof (induction xs arbitrary: m)
  case Nil
  then show ?case by simp
next
  case (Cons x xs)
  have step: "\<And>k' v. (k', v) \<in> set (upsert (key x) i (f x) m) \<Longrightarrow> P k' v"
    by (rule upsert_invariant[where P = P and m = m and k = "key x" and f = "f x" and i = i])
       (simp_all add: Cons.prems)
  show ?case
    by (rule Cons.IH[where m = "upsert (key x) i (f x) m"])
       (use step Cons.prems in simp_all)
qed

lemma groupByDay_days:
  assumes "dayData \<in> set (groupByDay data)"
  shows "dayData \<noteq> [] \<and> set dayData \<subseteq> set data
         \<and> (\<exists>k. \<forall>d \<in> set dayData. dayKey (date d) = k)"
proof -
  from assms obtain k where k:
    "(k, dayData) \<in> set (foldl (\<lambda>m d. upsert (dayKey (date d)) [] (\<lambda>l. l @ [d]) m) [] data)"
    by (auto simp: groupByDay_def)
  have "dayData \<noteq> [] \<and> set dayData \<subseteq> set data \<and> (\<forall>d \<in> set dayData. dayKey (date d) = k)"
    by (rule foldl_upsert_invariant[where
          P = "\<lambda>k l. l \<noteq> [] \<and> set l \<subseteq> set data \<and> (\<forall>d \<in> set l. dayKey (date d) = k)"
          and key = "\<lambda>d. dayKey (date d)" and f = "\<lambda>d l. l @ [d]" and i = "[]"
          and m = "[]" and xs = data, OF _ _ _ k]) auto
  then show ?thesis by blast
qed

lemma sqrtEfficiency_bounds:
  "0 < efficiency cfg \<Longrightarrow> efficiency cfg \<le> 1 \<Longrightarrow> 0 < sqrtEfficiency cfg \<and> sqrtEfficiency cfg \<le> 1"
  by (simp add: sqrtEfficiency_def)

lemma chargeStep_soc:
  assumes "0 < sqrtEfficiency cfg" "sqrtEfficiency cfg \<le> 1"
    and "minSOC cfg \<le> soc st" "soc st \<le> maxSOC cfg"
  shows "minSOC cfg \<le> soc (chargeStep cfg st h) \<and> soc (chargeStep cfg st h) \<le> maxSOC cfg"
proof -
  define m where "m = min (min (output_mw (snd h)) (powerMW cfg)) (maxSOC cfg - soc st)"
  show ?thesis
  proof (cases "m * sqrtEfficiency cfg > 0")
    case True
    with assms(1) have mpos: "0 < m" by (simp add: zero_less_mult_iff)
    have "m * sqrtEfficiency cfg \<le> m * 1"
      using mpos assms(2) by (intro mult_left_mono) simp_all
    also have "\<dots> \<le> maxSOC cfg - soc st" by (simp add: m_def)
    finally have "m * sqrtEfficiency cfg \<le> maxSOC cfg - soc st" .
    with True assms(3) show ?thesis
      by (simp add: chargeStep_def Let_def m_def[symmetric])
  next
    case False
    with assms(3,4) show ?thesis
      by (simp add: chargeStep_def Let_def m_def[symmetric])
  qed
qed

lemma dischargeStep_soc:
  assumes "minSOC cfg \<le> soc st" "soc st \<le> maxSOC cfg"
  shows "minSOC cfg \<le> soc (dischargeStep cfg st h) \<and> soc (dischargeStep cfg st h) \<le> maxSOC cfg"
  using assms by (auto simp: dischargeStep_def Let_def min_def)

lemma foldl_chargeStep_soc:
  assumes "0 < sqrtEfficiency cfg" "sqrtEfficiency cfg \<le> 1"
    and "minSOC cfg \<le> soc st" "soc st \<le> maxSOC cfg"
  shows "minSOC cfg \<le> soc (foldl (chargeStep cfg) st hs)
       \<and> soc (foldl (chargeStep cfg) st hs) \<le> maxSOC cfg"
  using assms(3,4)
proof (induction hs arbitrary: st)
  case Nil
  then show ?case by simp
next
  case (Cons h hs)
  from chargeStep_soc[OF assms(1,2) Cons.prems, of h]
  show ?case by (simp add: Cons.IH)
qed

lemma foldl_dischargeStep_soc:
  assumes "minSOC cfg \<le> soc st" "soc st \<le> maxSOC cfg"
  shows "minSOC cfg \<le> soc (foldl (dischargeStep cfg) st hs)
       \<and> soc (foldl (dischargeStep cfg) st hs) \<le> maxSOC cfg"
  using assms
proof (induction hs arbitrary: st)
  case Nil
  then show ?case by simp
next
  case (Cons h hs)
  from dischargeStep_soc[OF Cons.prems, of h]
  show ?case by (simp add: Cons.IH)
qed

lemma dayStart_soc:
  "0 \<le> energyMWh cfg \<Longrightarrow> minSOC cfg \<le> soc (dayStart cfg) \<and> soc (dayStart cfg) \<le> maxSOC cfg"
  by (simp add: dayStart_def minSOC_def maxSOC_def MIN_SOC_def MAX_SOC_def)

text \<open>
  The clamps of the two loops in exact arithmetic. For every battery configuration
  with \<open>powerMW > 0\<close>, \<open>energyMWh > 0\<close> and \<open>efficiency\<close> in \<open>(0, 1]\<close> and
  every day of the series (the records of one day key of \<open>groupByDay\<close>), the
  simulation of the day starts with the state of charge at 5% of \<open>energyMWh\<close>,
  and over the reals the state of charge lies between 5% and 95% of \<open>energyMWh\<close>
  after every iteration of the charging loop and of the discharging loop. This is
  what the clamps \<open>Math.min(chargeableFromPV, maxSOC - soc)\<close> and
  \<open>Math.min(powerMW, soc - minSOC)\<close> are written for. It is a property of the
  arithmetic without rounding only: the engine rounds \<open>maxSOC - soc\<close> and then
  \<open>soc + actualCharge\<close> to doubles, and the rounded sum can lie one unit in the
  last place above \<open>maxSOC\<close> (below \<open>minSOC\<close> in the discharging loop).
\<close>

lemma soc_in_window_exact_arithmetic:
  assumes "0 < powerMW cfg" and "0 < energyMWh cfg"
    and "0 < efficiency cfg" and "efficiency cfg \<le> 1"
    and "dayData \<in> set (groupByDay data)"
  shows "set dayData \<subseteq> set data
    \<and> (\<exists>key. \<forall>d \<in> set dayData. dayKey (date d) = key)
    \<and> soc (dayStart cfg) = 5 / 100 * energyMWh cfg
    \<and> simulateDay cfg dayData =
        foldl (dischargeStep cfg)
          (foldl (chargeStep cfg) (dayStart cfg) (chargeHours cfg dayData))
          (dischargeHours cfg dayData)
    \<and> (\<forall>k. 5 / 100 * energyMWh cfg
              \<le> soc (foldl (chargeStep cfg) (dayStart cfg) (take k (chargeHours cfg dayData)))
          \<and> soc (foldl (chargeStep cfg) (dayStart cfg) (take k (chargeHours cfg dayData)))
              \<le> 95 / 100 * energyMWh cfg)
    \<and> (\<forall>k. 5 / 100 * energyMWh cfg
              \<le> soc (foldl (dischargeStep cfg)
                      (foldl (chargeStep cfg) (dayStart cfg) (chargeHours cfg dayData))
                      (take k (dischargeHours cfg dayData)))
          \<and> soc (foldl (dischargeStep cfg)
                      (foldl (chargeStep cfg) (dayStart cfg) (chargeHours cfg dayData))
                      (take k (dischargeHours cfg dayData)))
              \<le> 95 / 100 * energyMWh cfg)"
proof -
  have s: "0 < sqrtEfficiency cfg" "sqrtEfficiency cfg \<le> 1"
    using sqrtEfficiency_bounds[OF assms(3,4)] by simp_all
  have mn: "minSOC cfg = 5 / 100 * energyMWh cfg" and mx: "maxSOC cfg = 95 / 100 * energyMWh cfg"
    by (simp_all add: minSOC_def maxSOC_def MIN_SOC_def MAX_SOC_def)
  have d0: "minSOC cfg \<le> soc (dayStart cfg)" "soc (dayStart cfg) \<le> maxSOC cfg"
    using dayStart_soc[of cfg] assms(2) by simp_all
  have a: "soc (dayStart cfg) = 5 / 100 * energyMWh cfg"
    by (simp add: dayStart_def mn)
  have b: "simulateDay cfg dayData =
        foldl (dischargeStep cfg)
          (foldl (chargeStep cfg) (dayStart cfg) (chargeHours cfg dayData))
          (dischargeHours cfg dayData)"
    by (simp add: simulateDay_def afterCharging_def)
  have c: "\<And>hs. minSOC cfg \<le> soc (foldl (chargeStep cfg) (dayStart cfg) hs)
          \<and> soc (foldl (chargeStep cfg) (dayStart cfg) hs) \<le> maxSOC cfg"
    by (rule foldl_chargeStep_soc[OF s d0])
  have d: "\<And>hs ds. minSOC cfg \<le> soc (foldl (dischargeStep cfg) (foldl (chargeStep cfg) (dayStart cfg) hs) ds)
          \<and> soc (foldl (dischargeStep cfg) (foldl (chargeStep cfg) (dayStart cfg) hs) ds) \<le> maxSOC cfg"
    using c by (intro foldl_dischargeStep_soc) simp_all
  have e: "set dayData \<subseteq> set data \<and> (\<exists>key. \<forall>d \<in> set dayData. dayKey (date d) = key)"
    using groupByDay_days[OF assms(5)] by blast
  show ?thesis
    using a b c d e unfolding mn mx by blast
qed

lemma groupByDay_dayExample: "groupByDay dayExample = [dayExample]"
  by (simp add: groupByDay_def dayExample_def dayKey_def msPerDay_def)

lemma chargeHours_dayExample:
  "chargeHours batteryExample dayExample = [(0, \<lparr>timestamp = 0, price = - 10, output_mw = 10, date = 0\<rparr>)]"
  by (simp add: chargeHours_def sortedHours_def dayExample_def batteryExample_def
        cycleHours_def slice0_def enumerate_eq_zip upt_rec)

lemma dischargeHours_dayExample:
  "dischargeHours batteryExample dayExample =
     [(1, \<lparr>timestamp = 3600, price = 50, output_mw = 0, date = 3600000\<rparr>)]"
  unfolding dischargeHours_def chargeHours_dayExample
  by (simp add: sortedHours_def dayExample_def batteryExample_def
        cycleHours_def slice0_def enumerate_eq_zip upt_rec)

lemma simulateDay_dayExample:
  "simulateDay batteryExample dayExample =
     \<lparr>soc = 1, dayUplift = 600, dayShifted = 10, dayNegAvoided = 10\<rparr>"
  unfolding simulateDay_def afterCharging_def chargeHours_dayExample dischargeHours_dayExample
  by (simp add: chargeStep_def dischargeStep_def dayStart_def minSOC_def maxSOC_def
        MIN_SOC_def MAX_SOC_def sqrtEfficiency_def batteryExample_def Let_def)

lemma batteryTotals_dayExample:
  "batteryTotals batteryExample dayExample =
     Inr \<lparr>totalUplift_acc = 600, totalShiftedMWh_acc = 10, totalNegativeAvoided = 10,
          originalNegativeRevenue = - 100,
          dailyResults_acc = [\<lparr>day_date = 0, uplift = 600, shifted = 10\<rparr>]\<rparr>"
  unfolding batteryTotals_def groupByDay_dayExample
  by (simp add: dayBody_def simulateDay_dayExample totalsStart_def Let_def)
     (simp add: dayExample_def)

lemma soc_in_window_exact_arithmetic_example:
  "0 < powerMW batteryExample \<and> 0 < energyMWh batteryExample
   \<and> 0 < efficiency batteryExample \<and> efficiency batteryExample \<le> 1
   \<and> dayExample \<in> set (groupByDay dayExample)
   \<and> soc (dayStart batteryExample) = 5 / 100 * energyMWh batteryExample
   \<and> 5 / 100 * energyMWh batteryExample
        \<le> soc (foldl (chargeStep batteryExample) (dayStart batteryExample)
                (take 1 (chargeHours batteryExample dayExample)))
   \<and> soc (foldl (chargeStep batteryExample) (dayStart batteryExample)
                (take 1 (chargeHours batteryExample dayExample)))
        \<le> 95 / 100 * energyMWh batteryExample
   \<and> soc (foldl (chargeStep batteryExample) (dayStart batteryExample)
                (take 1 (chargeHours batteryExample dayExample))) = 11"
proof -
  have h: "0 < powerMW batteryExample" "0 < energyMWh batteryExample"
    "0 < efficiency batteryExample" "efficiency batteryExample \<le> 1"
    by (simp_all add: batteryExample_def)
  have g: "dayExample \<in> set (groupByDay dayExample)"
    by (simp add: groupByDay_dayExample)
  have v: "soc (foldl (chargeStep batteryExample) (dayStart batteryExample)
                (take 1 (chargeHours batteryExample dayExample))) = 11"
    unfolding chargeHours_dayExample
    by (simp add: chargeStep_def dayStart_def minSOC_def maxSOC_def
        MIN_SOC_def MAX_SOC_def sqrtEfficiency_def batteryExample_def Let_def)
  from soc_in_window_exact_arithmetic[OF h g] h g v show ?thesis by blast
qed

lemma foldl_add_sum_list:
  "foldl (\<lambda>s d. s + f d) a xs = a + sum_list (map f xs)"
  for a :: real
  by (induction xs arbitrary: a) simp_all

lemma sum_list_pos_real:
  "xs \<noteq> [] \<Longrightarrow> (\<And>x. x \<in> set xs \<Longrightarrow> 0 < f x) \<Longrightarrow> 0 < sum_list (map f xs)"
  for f :: "'a \<Rightarrow> real"
proof (induction xs)
  case Nil
  then show ?case by simp
next
  case (Cons x xs)
  show ?case
  proof (cases "xs = []")
    case True
    with Cons.prems(2)[of x] show ?thesis by simp
  next
    case False
    from Cons.IH[OF False] Cons.prems(2) have "0 < sum_list (map f xs)" by simp
    with Cons.prems(2)[of x] show ?thesis by simp
  qed
qed

lemma negativeProduction_pos:
  assumes "d \<in> set data" "price d < 0" "0 < output_mw d"
  shows "0 < negativeProduction data"
proof -
  let ?neg = "filter (\<lambda>d. price d < 0 \<and> output_mw d > 0) data"
  have "?neg \<noteq> []" using assms by (auto simp: filter_empty_conv)
  then have "0 < sum_list (map output_mw ?neg)"
    by (rule sum_list_pos_real) simp
  then show ?thesis
    by (simp add: negativeProduction_def foldl_add_sum_list)
qed

lemma chargeStep_neg:
  "dayNegAvoided (chargeStep cfg st h) \<noteq> dayNegAvoided st \<Longrightarrow> price (snd h) < 0"
  by (auto simp: chargeStep_def Let_def split: if_splits)

lemma foldl_chargeStep_neg:
  "dayNegAvoided (foldl (chargeStep cfg) st hs) \<noteq> dayNegAvoided st
     \<Longrightarrow> \<exists>h \<in> set hs. price (snd h) < 0"
proof (induction hs arbitrary: st)
  case Nil
  then show ?case by simp
next
  case (Cons h hs)
  show ?case
  proof (cases "dayNegAvoided (chargeStep cfg st h) = dayNegAvoided st")
    case True
    with Cons.prems have "dayNegAvoided (foldl (chargeStep cfg) (chargeStep cfg st h) hs)
        \<noteq> dayNegAvoided (chargeStep cfg st h)" by simp
    from Cons.IH[OF this] show ?thesis by auto
  next
    case False
    from chargeStep_neg[OF this] show ?thesis by simp
  qed
qed

lemma dischargeStep_neg: "dayNegAvoided (dischargeStep cfg st h) = dayNegAvoided st"
  by (simp add: dischargeStep_def Let_def)

lemma foldl_dischargeStep_neg:
  "dayNegAvoided (foldl (dischargeStep cfg) st hs) = dayNegAvoided st"
  by (induction hs arbitrary: st) (simp_all add: dischargeStep_neg)

lemma set_slice0: "set (slice0 xs n) \<subseteq> set xs"
  by (cases n) (auto simp: slice0_def dest: in_set_takeD)

lemma chargeHours_member:
  assumes "h \<in> set (chargeHours cfg dayData)"
  shows "snd h \<in> set dayData \<and> 0 < output_mw (snd h)"
proof -
  from assms have "h \<in> set (filter (\<lambda>h. output_mw (snd h) > 0) (sortedHours dayData))"
    unfolding chargeHours_def using set_slice0 by (rule subsetD[rotated])
  then have "h \<in> set (enumerate 0 dayData)" and o: "0 < output_mw (snd h)"
    by (simp_all add: sortedHours_def)
  then have "fst h < length dayData" "dayData ! fst h = snd h"
    by (simp_all add: in_set_enumerate_eq)
  then have "snd h \<in> set dayData"
    using nth_mem[of "fst h" dayData] by simp
  with o show ?thesis by simp
qed

lemma simulateDay_neg:
  assumes "dayNegAvoided (simulateDay cfg dayData) \<noteq> 0"
  shows "\<exists>h \<in> set (chargeHours cfg dayData). price (snd h) < 0"
proof -
  have "dayNegAvoided (simulateDay cfg dayData) = dayNegAvoided (afterCharging cfg dayData)"
    by (simp add: simulateDay_def foldl_dischargeStep_neg)
  with assms have "dayNegAvoided (foldl (chargeStep cfg) (dayStart cfg) (chargeHours cfg dayData))
      \<noteq> dayNegAvoided (dayStart cfg)"
    by (simp add: afterCharging_def dayStart_def)
  then show ?thesis by (rule foldl_chargeStep_neg)
qed

lemma dayBody_total: "dayData \<noteq> [] \<Longrightarrow> \<exists>t'. dayBody cfg t dayData = Inr t'"
  by (cases dayData) (simp_all add: dayBody_def Let_def)

lemma dayBody_neg:
  "dayBody cfg t dayData = Inr t' \<Longrightarrow>
     totalNegativeAvoided t' = totalNegativeAvoided t + dayNegAvoided (simulateDay cfg dayData)"
  by (cases dayData) (auto simp: dayBody_def Let_def)

lemma foldE_total:
  "(\<And>x s. x \<in> set xs \<Longrightarrow> \<exists>s'. f s x = Inr s') \<Longrightarrow> \<exists>s'. foldE f s xs = Inr s'"
proof (induction xs arbitrary: s)
  case Nil
  then show ?case by simp
next
  case (Cons x xs)
  from Cons.prems[of x s] obtain s1 where s1: "f s x = Inr s1" by auto
  from Cons.IH[of s1] Cons.prems obtain s' where "foldE f s1 xs = Inr s'" by auto
  with s1 show ?case by simp
qed

lemma foldE_dayBody_neg:
  "foldE (dayBody cfg) t days = Inr t' \<Longrightarrow> totalNegativeAvoided t' \<noteq> totalNegativeAvoided t
     \<Longrightarrow> \<exists>day \<in> set days. dayNegAvoided (simulateDay cfg day) \<noteq> 0"
proof (induction days arbitrary: t)
  case Nil
  then show ?case by simp
next
  case (Cons day days)
  from Cons.prems(1) obtain t1 where t1: "dayBody cfg t day = Inr t1"
    and rest: "foldE (dayBody cfg) t1 days = Inr t'"
    by (auto split: sum.splits)
  show ?case
  proof (cases "dayNegAvoided (simulateDay cfg day) = 0")
    case True
    with dayBody_neg[OF t1] Cons.prems(2) have "totalNegativeAvoided t' \<noteq> totalNegativeAvoided t1"
      by simp
    from Cons.IH[OF rest this] show ?thesis by auto
  next
    case False
    then show ?thesis by simp
  qed
qed

lemma batteryTotals_total: "\<exists>t. batteryTotals cfg data = Inr t"
  unfolding batteryTotals_def
proof (rule foldE_total)
  fix x s
  assume "x \<in> set (groupByDay data)"
  from groupByDay_days[OF this] have "x \<noteq> []" by simp
  then show "\<exists>s'. dayBody cfg s x = Inr s'" by (rule dayBody_total)
qed

text \<open>
  Claim C10. \<open>simulateBattery\<close> always returns a result: the division of the negative
  exposure reduction never has a zero denominator. Whenever \<open>totalNegativeAvoided\<close>
  is positive, some charge hour of some day has a negative price and a positive
  output and belongs to the series, so the production at negative prices, the
  denominator, is positive.
\<close>

theorem negativeReduction_never_divides_by_zero:
  "(\<exists>r. simulateBattery data cfg = Inr r)
   \<and> (\<exists>t. batteryTotals cfg data = Inr t
        \<and> (0 < totalNegativeAvoided t \<longrightarrow>
              (\<exists>day \<in> set (groupByDay data). \<exists>h \<in> set (chargeHours cfg day).
                  price (snd h) < 0 \<and> 0 < output_mw (snd h) \<and> snd h \<in> set data)
            \<and> 0 < negativeProduction data))"
proof -
  obtain t where t: "batteryTotals cfg data = Inr t"
    using batteryTotals_total by blast
  have imp: "(\<exists>day \<in> set (groupByDay data). \<exists>h \<in> set (chargeHours cfg day).
                  price (snd h) < 0 \<and> 0 < output_mw (snd h) \<and> snd h \<in> set data)
            \<and> 0 < negativeProduction data" if pos: "0 < totalNegativeAvoided t"
  proof -
    from pos have "totalNegativeAvoided t \<noteq> totalNegativeAvoided totalsStart"
      by (simp add: totalsStart_def)
    with t obtain day where day: "day \<in> set (groupByDay data)"
      and nz: "dayNegAvoided (simulateDay cfg day) \<noteq> 0"
      unfolding batteryTotals_def using foldE_dayBody_neg by blast
    from simulateDay_neg[OF nz] obtain h where h: "h \<in> set (chargeHours cfg day)"
      and neg: "price (snd h) < 0" by blast
    from chargeHours_member[OF h] have m: "snd h \<in> set day" and o: "0 < output_mw (snd h)"
      by simp_all
    from groupByDay_days[OF day] m have d: "snd h \<in> set data" by blast
    from negativeProduction_pos[OF d neg o] have "0 < negativeProduction data" .
    with day h neg o d show ?thesis by blast
  qed
  have "\<exists>q. negativeReductionOf t data = Inr q"
  proof (cases "0 < totalNegativeAvoided t")
    case True
    with imp have "negativeProduction data \<noteq> 0" by simp
    with True show ?thesis by (simp add: negativeReductionOf_def jsdiv_def)
  next
    case False
    then show ?thesis by (simp add: negativeReductionOf_def)
  qed
  then obtain q where q: "negativeReductionOf t data = Inr q" by blast
  have "\<exists>r. simulateBattery data cfg = Inr r"
    by (simp add: simulateBattery_def t q Let_def)
  with t imp show ?thesis by blast
qed

theorem negativeReduction_never_divides_by_zero_witness:
  "\<exists>t. batteryTotals batteryExample dayExample = Inr t
      \<and> 0 < totalNegativeAvoided t \<and> 0 < negativeProduction dayExample"
proof -
  from negativeReduction_never_divides_by_zero[of dayExample batteryExample]
  obtain t where t: "batteryTotals batteryExample dayExample = Inr t"
    and imp: "0 < totalNegativeAvoided t \<longrightarrow> 0 < negativeProduction dayExample"
    by blast
  from t have "0 < totalNegativeAvoided t"
    by (auto simp: batteryTotals_dayExample)
  with t imp show ?thesis by blast
qed

section \<open>Properties of the KPI calculator\<close>

lemma percentile_total:
  assumes "0 \<le> p" "p \<le> 100"
  shows "\<exists>v. percentile xs p = Inr v"
proof (cases "length xs = 0")
  case True
  then show ?thesis by (simp add: percentile_def)
next
  case False
  define idx where "idx = (p / 100) * (real (length xs) - 1)"
  have n1: "0 \<le> real (length xs) - 1" using False by (cases xs) simp_all
  have i0: "0 \<le> idx" unfolding idx_def using assms(1) n1 by simp
  have "p / 100 \<le> 1" using assms(2) by simp
  then have "idx \<le> 1 * (real (length xs) - 1)"
    unfolding idx_def using n1 by (intro mult_right_mono) simp_all
  then have i1: "idx \<le> real_of_int (int (length xs) - 1)" by simp
  have lo: "0 \<le> \<lfloor>idx\<rfloor>" using i0 by simp
  have up: "\<lceil>idx\<rceil> \<le> int (length xs) - 1" using i1 by (simp only: ceiling_le_iff)
  have lu: "\<lfloor>idx\<rfloor> \<le> \<lceil>idx\<rceil>" by (rule floor_le_ceiling)
  have lo': "0 \<le> \<lceil>idx\<rceil>" using lo lu by linarith
  have up': "\<lfloor>idx\<rfloor> < int (length xs)" using up lu by linarith
  have up'': "\<lceil>idx\<rceil> < int (length xs)" using up by linarith
  have a: "\<exists>a. readNum xs \<lfloor>idx\<rfloor> = Inr a"
    using lo up' by (simp add: readNum_def)
  have b: "\<exists>b. readNum xs \<lceil>idx\<rceil> = Inr b"
    using lo' up'' by (simp add: readNum_def)
  from a b False show ?thesis
    unfolding percentile_def Let_def idx_def[symmetric] by auto
qed

lemma calculateRiskMetrics_total: "\<exists>rm. calculateRiskMetrics ms = Inr rm"
proof -
  obtain a where a: "percentile (sort (map revenue ms)) 5 = Inr a"
    using percentile_total[of 5] by auto
  obtain b where b: "percentile (sort (map revenue ms)) 50 = Inr b"
    using percentile_total[of 50] by auto
  obtain c where c: "percentile (sort (map revenue ms)) 95 = Inr c"
    using percentile_total[of 95] by auto
  show ?thesis
    by (simp add: calculateRiskMetrics_def Let_def a b c)
qed

lemma captureMap_count:
  assumes "(k, a) \<in> set (captureMap tz data)"
  shows "0 < count a"
  by (rule foldl_upsert_invariant[where P = "\<lambda>k a. 0 < count a"
        and key = "\<lambda>d. monthKey tz (date d)"
        and i = "\<lparr>priceSum = 0, weightedPriceSum = 0, outputSum = 0, count = 0\<rparr>"
        and f = "\<lambda>d a. \<lparr>priceSum = priceSum a + price d,
                           weightedPriceSum = weightedPriceSum a + price d * output_mw d,
                           outputSum = outputSum a + output_mw d,
                           count = count a + 1\<rparr>"
        and m = "[]" and xs = data, OF _ _ _ assms[unfolded captureMap_def]]) simp_all

lemma captureRateOfMonth_total: "0 < count a \<Longrightarrow> \<exists>r. captureRateOfMonth (k, a) = Inr r"
  by (simp add: captureRateOfMonth_def jsdiv_def Let_def)

lemma calculateMonthlyCaptureRates_total: "\<exists>rs. calculateMonthlyCaptureRates tz data = Inr rs"
proof -
  have "\<exists>rs. mapE captureRateOfMonth (captureMap tz data) = Inr rs"
  proof (rule mapE_total)
    fix x assume x: "x \<in> set (captureMap tz data)"
    obtain k a where ka: "x = (k, a)" by (cases x)
    with x have "0 < count a" using captureMap_count by blast
    then show "\<exists>y. captureRateOfMonth x = Inr y"
      unfolding ka by (rule captureRateOfMonth_total)
  qed
  then show ?thesis by (auto simp: calculateMonthlyCaptureRates_def)
qed

lemma binPercentages_total: "0 < n \<Longrightarrow> \<exists>r. binPercentages n k b = Inr r"
  by (simp add: binPercentages_def jsdiv_def)

lemma calculatePriceDistribution_total: "\<exists>pd. calculatePriceDistribution data = Inr pd"
proof (cases data)
  case Nil
  then show ?thesis by (simp add: calculatePriceDistribution_def)
next
  case (Cons d ds)
  have "\<exists>pd. mapE (binPercentages (length (map price data))
                 (length (map price (filter (\<lambda>d. output_mw d > 0) data))))
          (fillPv (fillAll (priceBins (price d) (map price ds)) (map price data))
             (map price (filter (\<lambda>d. output_mw d > 0) data))) = Inr pd"
    by (rule mapE_total) (rule binPercentages_total, simp add: Cons)
  then show ?thesis
    by (simp add: calculatePriceDistribution_def Let_def Cons)
qed

lemma civil_from_days_month: "\<exists>y mp d. civil_from_days z = (y, nat ((mp + 2) mod 12), d)"
  by (simp only: civil_from_days_def Let_def) blast

lemma getMonth_less: "getMonth tz d < 12"
proof -
  obtain y mp dd where "civil_from_days (LocalTime tz d div msPerDay) = (y, nat ((mp + 2) mod 12), dd)"
    using civil_from_days_month by blast
  then show ?thesis by (simp add: getMonth_def nat_less_iff)
qed

lemma getHours_less: "getHours tz d < 24"
  by (simp add: getHours_def nat_less_iff)

lemma matrixIncr_dims:
  assumes "matrixDims mat" "m < 12" "h < 24"
  shows "\<exists>mat'. matrixIncr mat m h = Inr mat' \<and> matrixDims mat'"
proof -
  from assms have l: "m < length mat" and r: "length (mat ! m) = 24"
    by (simp_all add: matrixDims_def list_all_length)
  have "matrixDims (mat[m := (mat ! m)[h := mat ! m ! h + 1]])"
    using assms(1,2) r
    by (auto simp: matrixDims_def list_all_length nth_list_update)
  with l r assms(3) show ?thesis by (simp add: matrixIncr_def)
qed

lemma heatmapStep_dims:
  assumes "matrixDims hm" "matrixDims cn"
  shows "\<exists>hm' cn'. heatmapStep tz (hm, cn) d = Inr (hm', cn') \<and> matrixDims hm' \<and> matrixDims cn'"
proof -
  obtain cn' where cn': "matrixIncr cn (getMonth tz (date d)) (getHours tz (date d)) = Inr cn'"
      "matrixDims cn'"
    using matrixIncr_dims[OF assms(2) getMonth_less getHours_less] by blast
  obtain hm' where hm': "matrixIncr hm (getMonth tz (date d)) (getHours tz (date d)) = Inr hm'"
      "matrixDims hm'"
    using matrixIncr_dims[OF assms(1) getMonth_less getHours_less] by blast
  show ?thesis
    using assms cn' hm' by (simp add: heatmapStep_def)
qed

lemma foldE_invariant:
  assumes "I s"
    and "\<And>s x. I s \<Longrightarrow> \<exists>s'. f s x = Inr s' \<and> I s'"
  shows "\<exists>s'. foldE f s xs = Inr s' \<and> I s'"
  using assms(1)
proof (induction xs arbitrary: s)
  case Nil
  then show ?case by simp
next
  case (Cons x xs)
  from assms(2)[OF Cons.prems, of x] obtain s1 where s1: "f s x = Inr s1" "I s1" by blast
  from Cons.IH[OF s1(2)] s1(1) show ?case by simp
qed

lemma calculateNegativeHeatmap_total: "\<exists>nh. calculateNegativeHeatmap tz data = Inr nh"
proof -
  have z: "matrixDims (replicate 12 (replicate 24 0))"
    by (simp add: matrixDims_def list_all_length)
  have "\<exists>s'. foldE (heatmapStep tz) (replicate 12 (replicate 24 0), replicate 12 (replicate 24 0)) data = Inr s'
      \<and> (matrixDims (fst s') \<and> matrixDims (snd s'))"
  proof (rule foldE_invariant[where I = "\<lambda>s. matrixDims (fst s) \<and> matrixDims (snd s)"])
    show "matrixDims (fst (replicate 12 (replicate 24 0), replicate 12 (replicate 24 0)))
        \<and> matrixDims (snd (replicate 12 (replicate 24 (0::nat)), replicate 12 (replicate 24 (0::nat))))"
      using z by simp
  next
    fix s :: "nat list list \<times> nat list list" and x
    assume "matrixDims (fst s) \<and> matrixDims (snd s)"
    then show "\<exists>s'. heatmapStep tz s x = Inr s' \<and> (matrixDims (fst s') \<and> matrixDims (snd s'))"
      using heatmapStep_dims[of "fst s" "snd s" tz x] by auto
  qed
  then obtain s' where "foldE (heatmapStep tz) (replicate 12 (replicate 24 0), replicate 12 (replicate 24 0)) data = Inr s'"
    by blast
  then show ?thesis
    by (cases s') (simp add: calculateNegativeHeatmap_def)
qed

lemma foldl_plus_sum_list: "foldl (\<lambda>a b. a + b) a xs = a + sum_list xs"
  for a :: real
  by (induction xs arbitrary: a) simp_all

lemma calculateMean_meanPrice: "calculateMean (map price data) = meanPrice data"
  by (simp add: calculateMean_def meanPrice_def foldl_plus_sum_list)

lemma round2: "real_of_int (Math_round (x * 100)) / 100 = roundTo 2 x"
  by (simp add: roundTo_def Math_round_def)

lemma round1: "real_of_int (Math_round (x * 10)) / 10 = roundTo 1 x"
  by (simp add: roundTo_def Math_round_def)

lemma calculateKPIs_Some:
  assumes "data \<noteq> []"
  shows "\<exists>rm mc pd nh.
      calculateRiskMetrics (calculateMonthlyRevenues tz data) = Inr rm
    \<and> calculateMonthlyCaptureRates tz data = Inr mc
    \<and> calculatePriceDistribution data = Inr pd
    \<and> calculateNegativeHeatmap tz data = Inr nh
    \<and> calculateKPIs tz (Some data) capacityMW options =
        Inr \<lparr>baseloadAvg = roundTo 2 (meanPrice data),
             capturePrice = roundTo 2 (exactCapturePrice data),
             captureRate = roundTo 1 (exactCaptureRate data),
             negativeHoursCount = length (negativeExposure data),
             negativeMWh = Math_round (sumOutput (negativeExposure data)),
             negativePercentage = roundTo 1 (exactNegativePercentage data),
             totalProduction = Math_round (sumOutput data),
             merchantRevenue = Math_round (sumMerchant options data),
             ppaRevenue = map_option (\<lambda>pp. Math_round (sumOutput data * pp)) (ppaPrice options),
             riskMetrics = rm,
             monthlyCaptureRates = mc,
             priceDistribution = pd,
             negativeHeatmap = nh,
             dataPoints = length data\<rparr>"
proof -
  obtain rm where rm: "calculateRiskMetrics (calculateMonthlyRevenues tz data) = Inr rm"
    using calculateRiskMetrics_total by blast
  obtain mc where mc: "calculateMonthlyCaptureRates tz data = Inr mc"
    using calculateMonthlyCaptureRates_total by blast
  obtain pd where pd: "calculatePriceDistribution data = Inr pd"
    using calculatePriceDistribution_total by blast
  obtain nh where nh: "calculateNegativeHeatmap tz data = Inr nh"
    using calculateNegativeHeatmap_total by blast
  have f1: "\<And>xs. foldl (\<lambda>sum d. sum + output_mw d) 0 xs = sumOutput xs"
    by (simp add: foldl_add_sum_list sumOutput_def)
  have f2: "foldl (\<lambda>sum d. sum + price d * output_mw d) 0 data = sumRevenue data"
    by (simp add: foldl_add_sum_list sumRevenue_def)
  have f4: "foldl (\<lambda>sum d. sum + effectivePrice options d * output_mw d) 0 data
      = sumMerchant options data"
    by (simp add: foldl_add_sum_list sumMerchant_def)
  have f5: "filter (\<lambda>d. price d < 0 \<and> output_mw d > 0) data = negativeExposure data"
    by (simp add: negativeExposure_def)
  have c1: "(if sumOutput data > 0 then sumRevenue data / sumOutput data else 0)
      = exactCapturePrice data"
    by (simp add: exactCapturePrice_def)
  have c2: "(if meanPrice data > 0 then exactCapturePrice data / meanPrice data * 100 else 0)
      = exactCaptureRate data"
    by (simp add: exactCaptureRate_def)
  have c3: "(if sumOutput data > 0 then sumOutput (negativeExposure data) / sumOutput data * 100 else 0)
      = exactNegativePercentage data"
    by (simp add: exactNegativePercentage_def)
  have p: "map_option Math_round
        (case ppaPrice options of None \<Rightarrow> None | Some pp \<Rightarrow> Some (sumOutput data * pp))
      = map_option (\<lambda>pp. Math_round (sumOutput data * pp)) (ppaPrice options)"
    by (cases "ppaPrice options") simp_all
  have l: "(length data = 0) = False" using assms by simp
  have "calculateKPIs tz (Some data) capacityMW options =
        Inr \<lparr>baseloadAvg = roundTo 2 (meanPrice data),
             capturePrice = roundTo 2 (exactCapturePrice data),
             captureRate = roundTo 1 (exactCaptureRate data),
             negativeHoursCount = length (negativeExposure data),
             negativeMWh = Math_round (sumOutput (negativeExposure data)),
             negativePercentage = roundTo 1 (exactNegativePercentage data),
             totalProduction = Math_round (sumOutput data),
             merchantRevenue = Math_round (sumMerchant options data),
             ppaRevenue = map_option (\<lambda>pp. Math_round (sumOutput data * pp)) (ppaPrice options),
             riskMetrics = rm,
             monthlyCaptureRates = mc,
             priceDistribution = pd,
             negativeHeatmap = nh,
             dataPoints = length data\<rparr>"
    by (simp only: calculateKPIs_def Let_def option.case l if_False rm mc pd nh sum.case
          f1 f2 f4 f5 calculateMean_meanPrice c1 c2 c3 round2 round1 p)
  with rm mc pd nh show ?thesis by blast
qed

lemma alternating_sums:
  "length (alternating n t) = 2 * n"
  "(\<Sum>d\<leftarrow>alternating n t. price d) = 95 * real n"
  "sumOutput (alternating n t) = 20 * real n"
  "sumRevenue (alternating n t) = 950 * real n"
  "length (negativeExposure (alternating n t)) = n"
  "sumOutput (negativeExposure (alternating n t)) = 10 * real n"
  by (induction n arbitrary: t)
     (simp_all add: sumOutput_def sumRevenue_def negativeExposure_def)

lemma alternatingExample_values:
  "length alternatingExample = 48"
  "meanPrice alternatingExample = 95 / 2"
  "exactCapturePrice alternatingExample = 95 / 2"
  "exactCaptureRate alternatingExample = 100"
  "length (negativeExposure alternatingExample) = 24"
  "exactNegativePercentage alternatingExample = 50"
  by (simp_all add: alternatingExample_def meanPrice_def exactCapturePrice_def
        exactCaptureRate_def exactNegativePercentage_def alternating_sums)

lemma roundTo_values:
  "roundTo 2 (95 / 2) = 95 / 2"
  "roundTo 1 100 = 100"
  "roundTo 1 50 = 50"
  "roundTo 2 0 = 0"
  "roundTo 1 0 = 0"
  "roundTo (Suc 0) 100 = 100"
  "roundTo (Suc 0) 50 = 50"
  "roundTo (Suc 0) 0 = 0"
  by (simp_all add: roundTo_def)

text \<open>
  Claim C3. For the 48 hourly records whose prices alternate between 100 and -5 and
  whose output is constantly 10, \<open>calculateKPIs\<close> returns
  \<open>negativeHoursCount = 24\<close>, \<open>negativePercentage = 50.0\<close>,
  \<open>capturePrice = 47.5\<close>, \<open>baseloadAvg = 47.5\<close> and \<open>captureRate = 100.0\<close>.
\<close>

theorem alternating_example_kpis:
  "\<exists>r. calculateKPIs tz (Some alternatingExample) capacityMW options = Inr r
      \<and> negativeHoursCount r = 24
      \<and> negativePercentage r = 50
      \<and> capturePrice r = 95 / 2
      \<and> baseloadAvg r = 95 / 2
      \<and> captureRate r = 100
      \<and> dataPoints r = 48"
proof -
  have ne: "alternatingExample \<noteq> []"
    using alternatingExample_values(1) by auto
  from calculateKPIs_Some[OF ne, of tz capacityMW options]
  obtain r where r: "calculateKPIs tz (Some alternatingExample) capacityMW options = Inr r"
    and f: "negativeHoursCount r = length (negativeExposure alternatingExample)"
      "negativePercentage r = roundTo 1 (exactNegativePercentage alternatingExample)"
      "capturePrice r = roundTo 2 (exactCapturePrice alternatingExample)"
      "baseloadAvg r = roundTo 2 (meanPrice alternatingExample)"
      "captureRate r = roundTo 1 (exactCaptureRate alternatingExample)"
      "dataPoints r = length alternatingExample"
    by force
  from r f show ?thesis
    by (simp add: alternatingExample_values roundTo_values)
qed

lemma foldl_upsert_same_key:
  "(\<And>d. d \<in> set xs \<Longrightarrow> key d = k) \<Longrightarrow>
     foldl (\<lambda>m d. upsert (key d) i (f d) m) [(k, a)] xs = [(k, foldl (\<lambda>a d. f d a) a xs)]"
  by (induction xs arbitrary: a) simp_all

lemma foldl_upsert_same_key_start:
  assumes "xs \<noteq> []" and "\<And>d. d \<in> set xs \<Longrightarrow> key d = k"
  shows "foldl (\<lambda>m d. upsert (key d) i (f d) m) [] xs = [(k, foldl (\<lambda>a d. f d a) i xs)]"
proof -
  from assms(1) obtain x xs' where xs: "xs = x # xs'" by (cases xs) auto
  have kx: "key x = k" using assms(2) xs by simp
  have "foldl (\<lambda>m d. upsert (key d) i (f d) m) [(k, f x i)] xs' =
      [(k, foldl (\<lambda>a d. f d a) (f x i) xs')]"
    by (rule foldl_upsert_same_key) (simp add: assms(2) xs)
  then show ?thesis by (simp add: xs kx)
qed

lemma foldl_revenue_acc:
  "foldl (\<lambda>a d. \<lparr>acc_revenue = acc_revenue a + price d * output_mw d,
                   acc_production = acc_production a + output_mw d\<rparr>)
     \<lparr>acc_revenue = r, acc_production = q\<rparr> xs
   = \<lparr>acc_revenue = r + sumRevenue xs, acc_production = q + sumOutput xs\<rparr>"
  by (induction xs arbitrary: r q) (simp_all add: sumRevenue_def sumOutput_def add.assoc)

lemma calculateMonthlyRevenues_single_month:
  assumes "data \<noteq> []" and "\<And>d. d \<in> set data \<Longrightarrow> monthKey tz (date d) = k"
  shows "calculateMonthlyRevenues tz data =
     [\<lparr>month = k, revenue = sumRevenue data, production = sumOutput data\<rparr>]"
proof -
  have "foldl (\<lambda>m d. upsert (monthKey tz (date d)) \<lparr>acc_revenue = 0, acc_production = 0\<rparr>
                     (\<lambda>a. \<lparr>acc_revenue = acc_revenue a + price d * output_mw d,
                           acc_production = acc_production a + output_mw d\<rparr>) m) [] data
      = [(k, foldl (\<lambda>a d. \<lparr>acc_revenue = acc_revenue a + price d * output_mw d,
                           acc_production = acc_production a + output_mw d\<rparr>)
              \<lparr>acc_revenue = 0, acc_production = 0\<rparr> data)]"
    by (rule foldl_upsert_same_key_start[where key = "\<lambda>d. monthKey tz (date d)"
          and f = "\<lambda>d a. \<lparr>acc_revenue = acc_revenue a + price d * output_mw d,
                           acc_production = acc_production a + output_mw d\<rparr>", OF assms])
  then show ?thesis
    by (simp add: calculateMonthlyRevenues_def foldl_revenue_acc)
qed

lemma percentile_singleton: "percentile [x] p = Inr x"
  by (simp add: percentile_def readNum_def)

lemma calculateRiskMetrics_single:
  "calculateRiskMetrics [\<lparr>month = k, revenue = x, production = y\<rparr>] =
     Inr \<lparr>p5 = Math_round x, p50 = Math_round x, p95 = Math_round x\<rparr>"
  by (simp add: calculateRiskMetrics_def percentile_singleton)

lemma riskMetrics_single_month:
  assumes "data \<noteq> []" and "\<And>d. d \<in> set data \<Longrightarrow> monthKey tz (date d) = k"
  shows "\<exists>r. calculateKPIs tz (Some data) capacityMW options = Inr r
    \<and> riskMetrics r = \<lparr>p5 = Math_round (sumRevenue data), p50 = Math_round (sumRevenue data),
                        p95 = Math_round (sumRevenue data)\<rparr>"
proof -
  from calculateKPIs_Some[OF assms(1), of tz capacityMW options]
  obtain r rm where r: "calculateKPIs tz (Some data) capacityMW options = Inr r"
    and rm: "calculateRiskMetrics (calculateMonthlyRevenues tz data) = Inr rm"
    and f: "riskMetrics r = rm"
    by force
  from rm have "rm = \<lparr>p5 = Math_round (sumRevenue data), p50 = Math_round (sumRevenue data),
                        p95 = Math_round (sumRevenue data)\<rparr>"
    by (simp add: calculateMonthlyRevenues_single_month[OF assms] calculateRiskMetrics_single)
  with r f show ?thesis by simp
qed

lemma sumRevenue_halfExample: "sumRevenue halfExample = 1 / 2"
  by (simp add: sumRevenue_def halfExample_def)

text \<open>
  The claim as stated, P50 equal to the month's revenue exactly, fails on a single
  record of price 0.5 and output 1: the revenue is 0.5 and the returned P50 is 1.
\<close>

theorem p50_is_rounded_counterexample:
  "fieldOf (p50 \<circ> riskMetrics) (calculateKPIs utc (Some halfExample) 1 noOptions) = Some 1
   \<and> sumRevenue halfExample = 1 / 2"
proof -
  have ne: "halfExample \<noteq> []" by (simp add: halfExample_def)
  have k: "\<And>d. d \<in> set halfExample \<Longrightarrow> monthKey utc (date d) = monthKey utc 0"
    by (simp add: halfExample_def)
  from riskMetrics_single_month[OF ne k, of 1 noOptions] show ?thesis
    by (auto simp: fieldOf_def sumRevenue_halfExample Math_round_def)
qed

lemma centExample_values:
  "centExample \<noteq> []"
  "meanPrice centExample = 2 / 5"
  "sumOutput centExample = 1"
  "sumRevenue centExample = 2 / 5"
  "sumMerchant noOptions centExample = 2 / 5"
  "exactCapturePrice centExample = 2 / 5"
  "exactCaptureRate centExample = 100"
  by (simp_all add: centExample_def meanPrice_def sumOutput_def sumRevenue_def sumMerchant_def
        effectivePrice_def noOptions_def exactCapturePrice_def exactCaptureRate_def)

lemma roundTo_cent_values:
  "roundTo 2 (2 / 5) = 2 / 5"
  "roundTo 0 (2 / 5) = 0"
  by (simp_all add: roundTo_def)

text \<open>
  The claim as stated has the merchant revenue rounded to 2 decimals. On a single
  record of price 0.4 and output 1 the revenue is 0.4, which is itself at 2
  decimals, and the returned merchant revenue is 0.
\<close>

theorem revenue_rounded_to_integer_counterexample:
  "fieldOf merchantRevenue (calculateKPIs utc (Some centExample) 1 noOptions) = Some 0
   \<and> roundTo 2 (sumMerchant noOptions centExample) = 2 / 5"
proof -
  from calculateKPIs_Some[OF centExample_values(1), of utc 1 noOptions]
  obtain r where "calculateKPIs utc (Some centExample) 1 noOptions = Inr r"
    and "merchantRevenue r = Math_round (sumMerchant noOptions centExample)"
    by force
  then show ?thesis
    by (simp add: fieldOf_def centExample_values roundTo_cent_values Math_round_def)
qed

lemma negativePriceExample_values:
  "negativePriceExample \<noteq> []"
  "meanPrice negativePriceExample = - 5"
  "exactCapturePrice negativePriceExample = - 5"
  "exactCaptureRate negativePriceExample = 0"
  by (simp_all add: negativePriceExample_def meanPrice_def sumOutput_def sumRevenue_def
        exactCapturePrice_def exactCaptureRate_def)

text \<open>
  The claim as stated fails for a price that is not positive: on a single record of
  price -5 and output 10 the capture price is -5 and the capture rate is 0, by the
  guard on the baseload average.
\<close>

theorem uniform_negative_price_counterexample:
  "fieldOf captureRate (calculateKPIs utc (Some negativePriceExample) 1 noOptions) = Some 0
   \<and> fieldOf capturePrice (calculateKPIs utc (Some negativePriceExample) 1 noOptions) = Some (- 5)
   \<and> list_all (\<lambda>d. price d = - 5) negativePriceExample"
proof -
  from calculateKPIs_Some[OF negativePriceExample_values(1), of utc 1 noOptions]
  obtain r where "calculateKPIs utc (Some negativePriceExample) 1 noOptions = Inr r"
    and "capturePrice r = roundTo 2 (exactCapturePrice negativePriceExample)"
    and "captureRate r = roundTo 1 (exactCaptureRate negativePriceExample)"
    by force
  moreover have "roundTo 2 (- 5) = - 5" by (simp add: roundTo_def)
  ultimately show ?thesis
    by (simp add: fieldOf_def negativePriceExample_values roundTo_values)
       (simp add: negativePriceExample_def)
qed

section \<open>Properties of the price distribution\<close>

declare binsLoop.simps [simp del]

lemma foldl_min_Min: "foldl min a xs = Min (set (a # xs))"
  for a :: real
proof -
  have "(\<lambda>x s. min s x) = (min :: real \<Rightarrow> real \<Rightarrow> real)"
    by (intro ext) (rule min.commute)
  then have "foldl min a xs = fold min xs a"
    by (simp add: foldl_conv_fold)
  then show ?thesis by (simp only: Min.set_eq_fold)
qed

lemma foldl_max_Max: "foldl max a xs = Max (set (a # xs))"
  for a :: real
proof -
  have "(\<lambda>x s. max s x) = (max :: real \<Rightarrow> real \<Rightarrow> real)"
    by (intro ext) (rule max.commute)
  then have "foldl max a xs = fold max xs a"
    by (simp add: foldl_conv_fold)
  then show ?thesis by (simp only: Max.set_eq_fold)
qed

lemma priceBins_edges:
  assumes "data = d # ds"
  shows "priceBins (price d) (map price ds) = binsLoop (lowEdge data) (highEdge data)"
proof -
  have "set (price d # map price ds) = price ` set data" using assms by simp
  then show ?thesis
    by (simp only: priceBins_def foldl_min_Min foldl_max_Max lowEdge_def highEdge_def)
qed

lemma binsLoop_member:
  "b \<in> set (binsLoop i mx) \<Longrightarrow>
     i \<le> bin_min b \<and> bin_min b < mx \<and> bin_max b = bin_min b + 10
     \<and> allCount b = 0 \<and> pvCount b = 0"
proof (induction i mx rule: binsLoop.induct)
  case (1 i mx)
  show ?case
  proof (cases "i < mx")
    case True
    with "1.prems" have "b = \<lparr>bin_range = intString i @ ''-'' @ intString (i + binWidth),
            bin_min = i, bin_max = i + binWidth, allCount = 0, pvCount = 0\<rparr>
        \<or> b \<in> set (binsLoop (i + binWidth) mx)"
      by (subst (asm) binsLoop.simps) simp
    then show ?thesis
    proof
      assume "b = \<lparr>bin_range = intString i @ ''-'' @ intString (i + binWidth),
            bin_min = i, bin_max = i + binWidth, allCount = 0, pvCount = 0\<rparr>"
      with True show ?thesis by (simp add: binWidth_def)
    next
      assume "b \<in> set (binsLoop (i + binWidth) mx)"
      from "1.IH"[OF True this] show ?thesis by (simp add: binWidth_def)
    qed
  next
    case False
    with "1.prems" show ?thesis by (subst (asm) binsLoop.simps) simp
  qed
qed

lemma binsLoop_sorted:
  "sorted_wrt (\<lambda>a b. bin_max a \<le> bin_min b) (binsLoop i mx)"
proof (induction i mx rule: binsLoop.induct)
  case (1 i mx)
  show ?case
  proof (cases "i < mx")
    case True
    have "\<And>b. b \<in> set (binsLoop (i + binWidth) mx) \<Longrightarrow> i + binWidth \<le> bin_min b"
      using binsLoop_member by blast
    with "1.IH"[OF True] True show ?thesis
      by (subst binsLoop.simps) simp
  next
    case False
    then show ?thesis by (subst binsLoop.simps) simp
  qed
qed

lemma binsLoop_cover:
  "real_of_int i \<le> p \<Longrightarrow> p < real_of_int mx \<Longrightarrow> \<exists>b \<in> set (binsLoop i mx). inBin p b"
proof (induction i mx rule: binsLoop.induct)
  case (1 i mx)
  from "1.prems" have lt: "i < mx" by linarith
  show ?case
  proof (cases "p < real_of_int (i + binWidth)")
    case True
    with "1.prems" lt show ?thesis
      by (subst binsLoop.simps) (simp add: inBin_def)
  next
    case False
    then have "real_of_int (i + binWidth) \<le> p" by simp
    from "1.IH"[OF lt this "1.prems"(2)] lt show ?thesis
      by (subst binsLoop.simps) auto
  qed
qed

lemma binsLoop_mins:
  "10 dvd (mx - i) \<Longrightarrow>
     map bin_min (binsLoop i mx) = map (\<lambda>j. i + 10 * int j) [0..<nat ((mx - i) div 10)]"
proof (induction i mx rule: binsLoop.induct)
  case (1 i mx)
  show ?case
  proof (cases "i < mx")
    case True
    from "1.prems" obtain k where k: "mx - i = 10 * k" by (auto simp: dvd_def)
    with True have kpos: "0 < k" by simp
    have k': "mx - (i + binWidth) = 10 * (k - 1)" using k by (simp add: binWidth_def)
    have d: "10 dvd (mx - (i + binWidth))" unfolding k' by simp
    have "nat k = Suc (nat (k - 1))" using kpos by simp
    then have n: "nat ((mx - i) div 10) = Suc (nat ((mx - (i + binWidth)) div 10))"
      unfolding k k' by simp
    have "map (\<lambda>j. i + 10 * int j) [0..<Suc (nat ((mx - (i + binWidth)) div 10))]
        = i # map (\<lambda>j. i + binWidth + 10 * int j) [0..<nat ((mx - (i + binWidth)) div 10)]"
      by (simp add: upt_conv_Cons map_Suc_upt[symmetric] binWidth_def del: upt_Suc)
    with "1.IH"[OF True d] True n show ?thesis
      by (subst binsLoop.simps) simp
  next
    case False
    then show ?thesis by (subst binsLoop.simps) simp
  qed
qed

lemma findUpdate_disjoint:
  assumes "sorted_wrt (\<lambda>a b. bin_max a \<le> bin_min b) bins"
  shows "findUpdate (inBin p) f bins = map (\<lambda>b. if inBin p b then f b else b) bins"
  using assms
proof (induction bins)
  case Nil
  then show ?case by simp
next
  case (Cons b bins)
  show ?case
  proof (cases "inBin p b")
    case True
    have "\<And>b'. b' \<in> set bins \<Longrightarrow> \<not> inBin p b'"
    proof -
      fix b' assume "b' \<in> set bins"
      with Cons.prems have "bin_max b \<le> bin_min b'" by simp
      with True show "\<not> inBin p b'" by (simp add: inBin_def)
    qed
    then have "map (\<lambda>b. if inBin p b then f b else b) bins = bins"
      by (simp add: map_idI)
    with True show ?thesis by simp
  next
    case False
    with Cons show ?thesis by simp
  qed
qed

lemma fillAll_counts:
  assumes "sorted_wrt (\<lambda>a b. bin_max a \<le> bin_min b) bins"
  shows "fillAll bins ps =
     map (\<lambda>b. b\<lparr>allCount := allCount b + length (filter (\<lambda>p. inBin p b) ps)\<rparr>) bins"
  using assms
proof (induction ps arbitrary: bins)
  case Nil
  then show ?case by (simp add: fillAll_def)
next
  case (Cons p ps)
  let ?upd = "\<lambda>b. if inBin p b then b\<lparr>allCount := allCount b + 1\<rparr> else b"
  have u: "\<And>x. bin_max (?upd x) = bin_max x" "\<And>x. bin_min (?upd x) = bin_min x"
    by simp_all
  have s: "sorted_wrt (\<lambda>a b. bin_max a \<le> bin_min b) (map ?upd bins)"
    using Cons.prems by (simp only: sorted_wrt_map u)
  have "fillAll bins (p # ps) = fillAll (map ?upd bins) ps"
    by (simp only: fillAll_def foldl_Cons findUpdate_disjoint[OF Cons.prems])
  also have "\<dots> = map (\<lambda>b. b\<lparr>allCount := allCount b + length (filter (\<lambda>p. inBin p b) ps)\<rparr>)
      (map ?upd bins)"
    by (rule Cons.IH[OF s])
  also have "\<dots> = map (\<lambda>b. b\<lparr>allCount := allCount b + length (filter (\<lambda>p. inBin p b) (p # ps))\<rparr>) bins"
    by (simp add: inBin_def)
  finally show ?case .
qed

lemma fillPv_counts:
  assumes "sorted_wrt (\<lambda>a b. bin_max a \<le> bin_min b) bins"
  shows "fillPv bins ps =
     map (\<lambda>b. b\<lparr>pvCount := pvCount b + length (filter (\<lambda>p. inBin p b) ps)\<rparr>) bins"
  using assms
proof (induction ps arbitrary: bins)
  case Nil
  then show ?case by (simp add: fillPv_def)
next
  case (Cons p ps)
  let ?upd = "\<lambda>b. if inBin p b then b\<lparr>pvCount := pvCount b + 1\<rparr> else b"
  have u: "\<And>x. bin_max (?upd x) = bin_max x" "\<And>x. bin_min (?upd x) = bin_min x"
    by simp_all
  have s: "sorted_wrt (\<lambda>a b. bin_max a \<le> bin_min b) (map ?upd bins)"
    using Cons.prems by (simp only: sorted_wrt_map u)
  have "fillPv bins (p # ps) = fillPv (map ?upd bins) ps"
    by (simp only: fillPv_def foldl_Cons findUpdate_disjoint[OF Cons.prems])
  also have "\<dots> = map (\<lambda>b. b\<lparr>pvCount := pvCount b + length (filter (\<lambda>p. inBin p b) ps)\<rparr>)
      (map ?upd bins)"
    by (rule Cons.IH[OF s])
  also have "\<dots> = map (\<lambda>b. b\<lparr>pvCount := pvCount b + length (filter (\<lambda>p. inBin p b) (p # ps))\<rparr>) bins"
    by (simp add: inBin_def)
  finally show ?case .
qed

lemma mapE_map:
  "(\<And>x. x \<in> set xs \<Longrightarrow> f x = Inr (g x)) \<Longrightarrow> mapE f xs = Inr (map g xs)"
  by (induction xs) simp_all

lemma round_percentage:
  "real_of_int (Math_round (c / n * 1000)) / 10 = roundTo 1 (100 * c / n)"
  by (simp add: roundTo_def Math_round_def mult.commute)

lemma binPercentages_distBinOf:
  assumes "data \<noteq> []" and "bin_max b = bin_min b + 10"
  shows "binPercentages (length (map price data)) (length (map price (pvHours data)))
           (b\<lparr>allCount := length (filter (\<lambda>p. inBin p b) (map price data)),
              pvCount := length (filter (\<lambda>p. inBin p b) (map price (pvHours data)))\<rparr>)
         = Inr (distBinOf data b)"
proof -
  define x where "x = b\<lparr>allCount := length (filter (\<lambda>p. inBin p b) (map price data)),
              pvCount := length (filter (\<lambda>p. inBin p b) (map price (pvHours data)))\<rparr>"
  have w: "(\<lambda>p. inBin p b) = inWindow (bin_min b)"
    by (intro ext) (simp add: inBin_def inWindow_def assms(2))
  have fields: "allCount x = countIn (bin_min b) (map price data)"
    "pvCount x = countIn (bin_min b) (map price (pvHours data))"
    "bin_range x = bin_range b" "bin_min x = bin_min b"
    unfolding x_def w countIn_def by simp_all
  have n: "(real (length data) = 0) = False" using assms(1) by simp
  have l: "length (map price data) = length data"
    "length (map price (pvHours data)) = length (pvHours data)" by simp_all
  have "binPercentages (length (map price data)) (length (map price (pvHours data))) x
      = Inr (distBinOf data b)"
    unfolding binPercentages_def jsdiv_def distBinOf_def fields l
    by (simp only: n if_False sum.case round_percentage) auto
  then show ?thesis unfolding x_def .
qed

lemma calculatePriceDistribution_bins:
  assumes "data \<noteq> []"
  shows "calculatePriceDistribution data =
     Inr (map (distBinOf data) (binsLoop (lowEdge data) (highEdge data)))"
proof -
  from assms obtain d ds where dd: "data = d # ds" by (cases data) auto
  let ?B = "binsLoop (lowEdge data) (highEdge data)"
  let ?cA = "\<lambda>b. length (filter (\<lambda>p. inBin p b) (map price data))"
  let ?cP = "\<lambda>b. length (filter (\<lambda>p. inBin p b) (map price (pvHours data)))"
  have sB: "sorted_wrt (\<lambda>a b. bin_max a \<le> bin_min b) ?B" by (rule binsLoop_sorted)
  have f1: "fillAll ?B (map price data) = map (\<lambda>b. b\<lparr>allCount := allCount b + ?cA b\<rparr>) ?B"
    by (rule fillAll_counts[OF sB])
  have s1: "sorted_wrt (\<lambda>a b. bin_max a \<le> bin_min b) (map (\<lambda>b. b\<lparr>allCount := allCount b + ?cA b\<rparr>) ?B)"
    using sB by (simp add: sorted_wrt_map)
  have f2: "fillPv (map (\<lambda>b. b\<lparr>allCount := allCount b + ?cA b\<rparr>) ?B) (map price (pvHours data))
      = map (\<lambda>b. b\<lparr>pvCount := pvCount b + ?cP b\<rparr>) (map (\<lambda>b. b\<lparr>allCount := allCount b + ?cA b\<rparr>) ?B)"
    by (rule fillPv_counts[OF s1])
  have f3: "map (\<lambda>b. b\<lparr>pvCount := pvCount b + ?cP b\<rparr>) (map (\<lambda>b. b\<lparr>allCount := allCount b + ?cA b\<rparr>) ?B)
      = map (\<lambda>b. b\<lparr>allCount := ?cA b, pvCount := ?cP b\<rparr>) ?B"
  proof -
    have "\<And>b. b \<in> set ?B \<Longrightarrow>
        (b\<lparr>allCount := allCount b + ?cA b\<rparr>)\<lparr>pvCount := pvCount (b\<lparr>allCount := allCount b + ?cA b\<rparr>)
            + ?cP (b\<lparr>allCount := allCount b + ?cA b\<rparr>)\<rparr>
        = b\<lparr>allCount := ?cA b, pvCount := ?cP b\<rparr>"
      using binsLoop_member by (simp add: inBin_def)
    then show ?thesis by (simp add: o_def)
  qed
  have m: "mapE (binPercentages (length (map price data)) (length (map price (pvHours data))))
        (map (\<lambda>b. b\<lparr>allCount := ?cA b, pvCount := ?cP b\<rparr>) ?B)
      = Inr (map (distBinOf data) ?B)"
  proof -
    have "mapE (binPercentages (length (map price data)) (length (map price (pvHours data))))
        (map (\<lambda>b. b\<lparr>allCount := ?cA b, pvCount := ?cP b\<rparr>) ?B)
      = Inr (map (\<lambda>b'. distBinOf data (b'\<lparr>allCount := 0, pvCount := 0\<rparr>))
          (map (\<lambda>b. b\<lparr>allCount := ?cA b, pvCount := ?cP b\<rparr>) ?B))"
    proof (rule mapE_map)
      fix x assume "x \<in> set (map (\<lambda>b. b\<lparr>allCount := ?cA b, pvCount := ?cP b\<rparr>) ?B)"
      then obtain b where b: "b \<in> set ?B" and x: "x = b\<lparr>allCount := ?cA b, pvCount := ?cP b\<rparr>"
        by auto
      from binsLoop_member[OF b] have bm: "bin_max b = bin_min b + 10"
        and z: "allCount b = 0" "pvCount b = 0" by simp_all
      have "x\<lparr>allCount := 0, pvCount := 0\<rparr> = b" unfolding x using z by simp
      with binPercentages_distBinOf[OF assms bm]
      show "binPercentages (length (map price data)) (length (map price (pvHours data))) x
          = Inr (distBinOf data (x\<lparr>allCount := 0, pvCount := 0\<rparr>))"
        unfolding x by simp
    qed
    also have "map (\<lambda>b'. distBinOf data (b'\<lparr>allCount := 0, pvCount := 0\<rparr>))
          (map (\<lambda>b. b\<lparr>allCount := ?cA b, pvCount := ?cP b\<rparr>) ?B) = map (distBinOf data) ?B"
    proof -
      have "\<And>b. b \<in> set ?B \<Longrightarrow> (b\<lparr>allCount := ?cA b, pvCount := ?cP b\<rparr>)\<lparr>allCount := 0, pvCount := 0\<rparr> = b"
        using binsLoop_member by simp
      then show ?thesis by (simp add: o_def)
    qed
    finally show ?thesis .
  qed
  have pb: "priceBins (price d) (map price ds) = ?B" by (rule priceBins_edges[OF dd])
  have "calculatePriceDistribution data =
      mapE (binPercentages (length (map price data)) (length (map price (pvHours data))))
        (fillPv (fillAll ?B (map price data)) (map price (pvHours data)))"
    unfolding calculatePriceDistribution_def Let_def pvHours_def[symmetric]
    by (simp add: dd pb[unfolded dd])
  then show ?thesis by (simp only: f1 f2 f3 m)
qed

lemma exactly_one_window:
  assumes "sorted_wrt (\<lambda>a b. a + 10 \<le> b) ms" and "\<exists>m \<in> set ms. inWindow m p"
  shows "length (filter (\<lambda>m. inWindow m p) ms) = 1"
  using assms
proof (induction ms)
  case Nil
  then show ?case by simp
next
  case (Cons m ms)
  show ?case
  proof (cases "inWindow m p")
    case True
    have "\<And>m'. m' \<in> set ms \<Longrightarrow> \<not> inWindow m' p"
    proof -
      fix m' assume "m' \<in> set ms"
      with Cons.prems(1) have "m + 10 \<le> m'" by simp
      then have "real_of_int (m + 10) \<le> real_of_int m'" by (simp only: of_int_le_iff)
      with True show "\<not> inWindow m' p" by (simp add: inWindow_def)
    qed
    then have "filter (\<lambda>m. inWindow m p) ms = []" by (simp add: filter_empty_conv)
    with True show ?thesis by simp
  next
    case False
    with Cons.prems have "sorted_wrt (\<lambda>a b. a + 10 \<le> b) ms" "\<exists>m \<in> set ms. inWindow m p"
      by simp_all
    from Cons.IH[OF this] False show ?thesis by simp
  qed
qed

lemma sum_countIn_Cons:
  "(\<Sum>m\<leftarrow>ms. countIn m (p # ps)) = length (filter (\<lambda>m. inWindow m p) ms) + (\<Sum>m\<leftarrow>ms. countIn m ps)"
  by (induction ms) (simp_all add: countIn_def)

lemma sum_countIn:
  assumes "sorted_wrt (\<lambda>a b. a + 10 \<le> b) ms"
    and "\<And>p. p \<in> set ps \<Longrightarrow> \<exists>m \<in> set ms. inWindow m p"
  shows "(\<Sum>m\<leftarrow>ms. countIn m ps) = length ps"
  using assms(2)
proof (induction ps)
  case Nil
  then show ?case by (simp add: countIn_def)
next
  case (Cons p ps)
  have "length (filter (\<lambda>m. inWindow m p) ms) = 1"
    by (rule exactly_one_window[OF assms(1)]) (simp add: Cons.prems)
  moreover have "(\<Sum>m\<leftarrow>ms. countIn m ps) = length ps"
    by (rule Cons.IH) (simp add: Cons.prems)
  ultimately show ?case by (simp add: sum_countIn_Cons)
qed

lemma binsLoop_mins_sorted:
  "sorted_wrt (\<lambda>a b. a + 10 \<le> b) (map bin_min (binsLoop i mx))"
proof -
  have "sorted_wrt (\<lambda>x y. bin_min x + 10 \<le> bin_min y) (binsLoop i mx)"
  proof (rule sorted_wrt_mono_rel[OF _ binsLoop_sorted])
    fix x y assume "x \<in> set (binsLoop i mx)" "bin_max x \<le> bin_min y"
    with binsLoop_member[of x i mx] show "bin_min x + 10 \<le> bin_min y" by simp
  qed
  then show ?thesis by (simp add: sorted_wrt_map)
qed

lemma priceDistribution_of_kpis:
  assumes "data \<noteq> []"
  shows "\<exists>r. calculateKPIs tz (Some data) capacityMW options = Inr r
    \<and> priceDistribution r = map (distBinOf data) (binsLoop (lowEdge data) (highEdge data))"
proof -
  from calculateKPIs_Some[OF assms, of tz capacityMW options]
  obtain r pd where "calculateKPIs tz (Some data) capacityMW options = Inr r"
    and "calculatePriceDistribution data = Inr pd" and "priceDistribution r = pd"
    by force
  then show ?thesis
    by (simp add: calculatePriceDistribution_bins[OF assms])
qed

lemma thirdsExample_edges:
  "thirdsExample \<noteq> []"
  "lowEdge thirdsExample = 0"
  "highEdge thirdsExample = 30"
  "Max (price ` set thirdsExample) = 21"
  by (simp_all add: thirdsExample_def lowEdge_def highEdge_def)

lemma allPct_of_bins:
  assumes "data \<noteq> []" and "10 dvd (mx - lo)"
  shows "map allPct (map (distBinOf data) (binsLoop lo mx)) =
     map (\<lambda>j. roundTo 1 (100 * real (countIn (lo + 10 * int j) (map price data)) / real (length data)))
       [0..<nat ((mx - lo) div 10)]"
proof -
  have "map allPct (map (distBinOf data) (binsLoop lo mx)) =
      map (\<lambda>m. roundTo 1 (100 * real (countIn m (map price data)) / real (length data)))
        (map bin_min (binsLoop lo mx))"
    by (simp add: distBinOf_def o_def)
  then show ?thesis
    unfolding binsLoop_mins[OF assms(2)] by (simp add: o_def)
qed

lemma upt_3: "[0..<3] = [0, 1, 2]"
  by (simp add: upt_rec)

lemma thirdsExample_allPct:
  "map allPct (map (distBinOf thirdsExample) (binsLoop 0 30)) = [333 / 10, 333 / 10, 333 / 10]"
proof -
  have "map allPct (map (distBinOf thirdsExample) (binsLoop 0 30)) =
     map (\<lambda>j. roundTo 1 (100 * real (countIn (0 + 10 * int j) (map price thirdsExample))
                          / real (length thirdsExample)))
       [0..<nat ((30 - 0) div 10)]"
    by (rule allPct_of_bins[OF thirdsExample_edges(1)]) simp
  also have "\<dots> = [333 / 10, 333 / 10, 333 / 10]"
    by (simp add: upt_3 thirdsExample_def countIn_def inWindow_def roundTo_def)
  finally show ?thesis .
qed

text \<open>
  The claim as stated has the percentages of a population add up to 100. On three
  records of prices 1, 11 and 21 every bin holds a third of the prices, each
  percentage is 33.3, and the sum is 99.9.
\<close>

theorem rounded_percentages_counterexample:
  "fieldOf (sum_list \<circ> map allPct \<circ> priceDistribution)
     (calculateKPIs utc (Some thirdsExample) 1 noOptions) = Some (999 / 10)"
proof -
  from priceDistribution_of_kpis[OF thirdsExample_edges(1), of utc 1 noOptions]
  obtain r where r: "calculateKPIs utc (Some thirdsExample) 1 noOptions = Inr r"
    and pd: "priceDistribution r = map (distBinOf thirdsExample) (binsLoop 0 30)"
    by (auto simp: thirdsExample_edges)
  have "(sum_list \<circ> map allPct \<circ> priceDistribution) r = 999 / 10"
    by (simp only: comp_apply pd thirdsExample_allPct) simp
  then show ?thesis
    unfolding r fieldOf_def by (simp only: sum.case)
qed

lemma topEdgeExample_edges:
  "topEdgeExample \<noteq> []"
  "lowEdge topEdgeExample = 0"
  "highEdge topEdgeExample = 10"
  by (simp_all add: topEdgeExample_def lowEdge_def highEdge_def)

text \<open>
  A highest price that is a multiple of 10 lies on the upper edge of the last bin,
  which the bin excludes: of the prices 0 and 10 only the first is counted.
\<close>

theorem top_edge_price_in_no_bin:
  "fieldOf (map allPct \<circ> priceDistribution)
     (calculateKPIs utc (Some topEdgeExample) 1 noOptions) = Some [50]"
proof -
  from priceDistribution_of_kpis[OF topEdgeExample_edges(1), of utc 1 noOptions]
  obtain r where r: "calculateKPIs utc (Some topEdgeExample) 1 noOptions = Inr r"
    and pd: "priceDistribution r = map (distBinOf topEdgeExample) (binsLoop 0 10)"
    by (auto simp: topEdgeExample_edges)
  have "map allPct (map (distBinOf topEdgeExample) (binsLoop 0 10)) =
     map (\<lambda>j. roundTo 1 (100 * real (countIn (0 + 10 * int j) (map price topEdgeExample))
                          / real (length topEdgeExample)))
       [0..<nat ((10 - 0) div 10)]"
    by (rule allPct_of_bins[OF topEdgeExample_edges(1)]) simp
  also have "\<dots> = [50]"
    by (simp add: topEdgeExample_def countIn_def inWindow_def roundTo_def)
  finally have "(map allPct \<circ> priceDistribution) r = [50]"
    by (simp only: comp_apply pd)
  then show ?thesis
    unfolding r fieldOf_def by (simp only: sum.case)
qed

section \<open>Properties of the KPI calculator in double arithmetic\<close>

lemma roundingLaws_mono: "roundingLaws e \<Longrightarrow> x \<le> y \<Longrightarrow> rnd e x \<le> rnd e y"
  by (simp add: roundingLaws_def mono_def)

lemma roundingLaws_nat: "roundingLaws e \<Longrightarrow> k \<le> 2 ^ 53 \<Longrightarrow> rnd e (real k) = real k"
  by (simp add: roundingLaws_def)

lemma roundingLaws_0: "roundingLaws e \<Longrightarrow> rnd e 0 = 0"
  using roundingLaws_nat[of e 0] by simp

lemma roundingLaws_1: "roundingLaws e \<Longrightarrow> rnd e 1 = 1"
  using roundingLaws_nat[of e 1] by simp

lemma roundingLaws_exampleEngine: "roundingLaws exampleEngine"
  by (simp add: roundingLaws_def exampleEngine_def mono_def)

lemma percentileD_total:
  assumes "roundingLaws e" and "0 \<le> p" and "p \<le> 100" and "length xs \<le> 2 ^ 53"
  shows "\<exists>v. percentileD e xs p = Inr v"
proof (cases "length xs = 0")
  case True
  then show ?thesis by (simp add: percentileD_def)
next
  case False
  define q where "q = rnd e (p / 100)"
  define idx where "idx = rnd e (q * (real (length xs) - 1))"
  have n1: "real (length xs) - 1 = real (length xs - 1)" using False by (cases xs) simp_all
  have n2: "length xs - 1 \<le> 2 ^ 53" using assms(4) by simp
  have q0: "0 \<le> q"
    using roundingLaws_mono[OF assms(1), of 0 "p / 100"] assms(2)
    by (simp add: q_def roundingLaws_0[OF assms(1)])
  have q1: "q \<le> 1"
    using roundingLaws_mono[OF assms(1), of "p / 100" 1] assms(3)
    by (simp add: q_def roundingLaws_1[OF assms(1)])
  have p0: "0 \<le> q * real (length xs - 1)" using q0 by simp
  have "q * real (length xs - 1) \<le> 1 * real (length xs - 1)"
    using q1 by (intro mult_right_mono) simp_all
  then have p1: "q * real (length xs - 1) \<le> real (length xs - 1)" by simp
  have "rnd e 0 \<le> idx"
    unfolding idx_def n1 by (rule roundingLaws_mono[OF assms(1) p0])
  then have i0: "0 \<le> idx" by (simp only: roundingLaws_0[OF assms(1)])
  have e1: "rnd e (real (length xs - 1)) = real (length xs - 1)"
    by (rule roundingLaws_nat[OF assms(1) n2])
  have "idx \<le> rnd e (real (length xs - 1))"
    unfolding idx_def n1 by (rule roundingLaws_mono[OF assms(1) p1])
  then have "idx \<le> real (length xs - 1)" by (simp only: e1)
  then have i1: "idx \<le> real_of_int (int (length xs) - 1)" using False by (cases xs) simp_all
  have lo: "0 \<le> \<lfloor>idx\<rfloor>" using i0 by simp
  have up: "\<lceil>idx\<rceil> \<le> int (length xs) - 1" using i1 by (simp only: ceiling_le_iff)
  have lu: "\<lfloor>idx\<rfloor> \<le> \<lceil>idx\<rceil>" by (rule floor_le_ceiling)
  have lo': "0 \<le> \<lceil>idx\<rceil>" using lo lu by linarith
  have up': "\<lfloor>idx\<rfloor> < int (length xs)" using up lu by linarith
  have up'': "\<lceil>idx\<rceil> < int (length xs)" using up by linarith
  have a: "\<exists>a. readNum xs \<lfloor>idx\<rfloor> = Inr a"
    using lo up' by (simp add: readNum_def)
  have b: "\<exists>b. readNum xs \<lceil>idx\<rceil> = Inr b"
    using lo' up'' by (simp add: readNum_def)
  from a b False show ?thesis
    unfolding percentileD_def Let_def q_def[symmetric] idx_def[symmetric] by auto
qed

lemma length_upsert: "length (upsert k i f m) \<le> Suc (length m)"
  by (induction m) auto

lemma length_foldl_upsert:
  "length (foldl (\<lambda>m d. upsert (key d) i (f d) m) m xs) \<le> length m + length xs"
proof (induction xs arbitrary: m)
  case Nil
  then show ?case by simp
next
  case (Cons x xs)
  have "length (foldl (\<lambda>m d. upsert (key d) i (f d) m) (upsert (key x) i (f x) m) xs)
      \<le> length (upsert (key x) i (f x) m) + length xs"
    by (rule Cons.IH)
  also have "\<dots> \<le> Suc (length m) + length xs"
    using length_upsert[of "key x" i "f x" m] by simp
  finally show ?case by simp
qed

lemma length_calculateMonthlyRevenuesD:
  "length (calculateMonthlyRevenuesD e data) \<le> length data"
  using length_foldl_upsert[where m = "[]" and xs = data
      and key = "\<lambda>d. monthKeyD e (date d)" and i = "\<lparr>acc_revenue = 0, acc_production = 0\<rparr>"
      and f = "\<lambda>d a. \<lparr>acc_revenue = rnd e (acc_revenue a + rnd e (price d * output_mw d)),
                       acc_production = rnd e (acc_production a + output_mw d)\<rparr>"]
  by (simp add: calculateMonthlyRevenuesD_def)

lemma calculateRiskMetricsD_total:
  assumes "roundingLaws e" and "length ms \<le> 2 ^ 53"
  shows "\<exists>rm. calculateRiskMetricsD e ms = Inr rm"
proof -
  have l: "length (sort (map revenue ms)) \<le> 2 ^ 53" using assms(2) by simp
  obtain a where a: "percentileD e (sort (map revenue ms)) 5 = Inr a"
    using percentileD_total[OF assms(1) _ _ l, of 5] by auto
  obtain b where b: "percentileD e (sort (map revenue ms)) 50 = Inr b"
    using percentileD_total[OF assms(1) _ _ l, of 50] by auto
  obtain c where c: "percentileD e (sort (map revenue ms)) 95 = Inr c"
    using percentileD_total[OF assms(1) _ _ l, of 95] by auto
  show ?thesis
    by (simp add: calculateRiskMetricsD_def Let_def a b c)
qed

lemma captureMapD_count:
  assumes "(k, a) \<in> set (captureMapD e data)"
  shows "0 < count a"
  by (rule foldl_upsert_invariant[where P = "\<lambda>k a. 0 < count a"
        and key = "\<lambda>d. monthKeyD e (date d)"
        and i = "\<lparr>priceSum = 0, weightedPriceSum = 0, outputSum = 0, count = 0\<rparr>"
        and f = "\<lambda>d a. \<lparr>priceSum = rnd e (priceSum a + price d),
                           weightedPriceSum = rnd e (weightedPriceSum a + rnd e (price d * output_mw d)),
                           outputSum = rnd e (outputSum a + output_mw d),
                           count = count a + 1\<rparr>"
        and m = "[]" and xs = data, OF _ _ _ assms[unfolded captureMapD_def]]) simp_all

lemma captureRateOfMonthD_total: "0 < count a \<Longrightarrow> \<exists>r. captureRateOfMonthD e (k, a) = Inr r"
  by (simp add: captureRateOfMonthD_def jsdivD_def Let_def)

lemma calculateMonthlyCaptureRatesD_total: "\<exists>rs. calculateMonthlyCaptureRatesD e data = Inr rs"
proof -
  have "\<exists>rs. mapE (captureRateOfMonthD e) (captureMapD e data) = Inr rs"
  proof (rule mapE_total)
    fix x assume x: "x \<in> set (captureMapD e data)"
    obtain k a where ka: "x = (k, a)" by (cases x)
    with x have "0 < count a" using captureMapD_count by blast
    then show "\<exists>y. captureRateOfMonthD e x = Inr y"
      unfolding ka by (rule captureRateOfMonthD_total)
  qed
  then show ?thesis by (auto simp: calculateMonthlyCaptureRatesD_def)
qed

lemma binPercentagesD_total: "0 < n \<Longrightarrow> \<exists>r. binPercentagesD e n k b = Inr r"
  by (simp add: binPercentagesD_def jsdivD_def)

lemma calculatePriceDistributionD_total:
  assumes "length data \<le> maxArguments e"
  shows "\<exists>pd. calculatePriceDistributionD e data = Inr pd"
proof (cases data)
  case Nil
  then show ?thesis by (simp add: calculatePriceDistributionD_def)
next
  case (Cons d ds)
  have m: "\<not> maxArguments e < length (map price data)" using assms by simp
  have "\<exists>pd. mapE (binPercentagesD e (length (map price data))
                 (length (map price (filter (\<lambda>d. output_mw d > 0) data))))
          (fillPv (fillAll (priceBinsD e (price d) (map price ds)) (map price data))
             (map price (filter (\<lambda>d. output_mw d > 0) data))) = Inr pd"
    by (rule mapE_total) (rule binPercentagesD_total, simp add: Cons)
  then show ?thesis
    using m by (simp add: calculatePriceDistributionD_def Let_def Cons)
qed

lemma calculatePriceDistributionD_RangeError:
  assumes "maxArguments e < length data"
  shows "calculatePriceDistributionD e data = Inl RangeError"
  using assms by (simp add: calculatePriceDistributionD_def Let_def)

lemma foldE_invariant_set:
  assumes "I s"
    and "\<And>s x. x \<in> set xs \<Longrightarrow> I s \<Longrightarrow> \<exists>s'. f s x = Inr s' \<and> I s'"
  shows "\<exists>s'. foldE f s xs = Inr s' \<and> I s'"
  using assms
proof (induction xs arbitrary: s)
  case Nil
  then show ?case by simp
next
  case (Cons x xs)
  from Cons.prems(2)[of x s] Cons.prems(1) obtain s1 where s1: "f s x = Inr s1" "I s1" by auto
  have "\<exists>s'. foldE f s1 xs = Inr s' \<and> I s'"
    by (rule Cons.IH[OF s1(2)]) (simp add: Cons.prems(2))
  with s1(1) show ?case by simp
qed

lemma calculateNegativeHeatmapD_total:
  assumes "\<forall>d \<in> set data. 0 < output_mw d \<longrightarrow> validDate (date d)"
  shows "\<exists>nh. calculateNegativeHeatmapD e data = Inr nh"
proof -
  have z: "matrixDims (replicate 12 (replicate 24 0))"
    by (simp add: matrixDims_def list_all_length)
  have "\<exists>s'. foldE (heatmapStepD e) (replicate 12 (replicate 24 0), replicate 12 (replicate 24 0)) data = Inr s'
      \<and> (matrixDims (fst s') \<and> matrixDims (snd s'))"
  proof (rule foldE_invariant_set[where I = "\<lambda>s. matrixDims (fst s) \<and> matrixDims (snd s)"])
    show "matrixDims (fst (replicate 12 (replicate 24 0), replicate 12 (replicate 24 0)))
        \<and> matrixDims (snd (replicate 12 (replicate 24 (0::nat)), replicate 12 (replicate 24 (0::nat))))"
      using z by simp
  next
    fix s :: "nat list list \<times> nat list list" and x
    assume x: "x \<in> set data" and "matrixDims (fst s) \<and> matrixDims (snd s)"
    then have "\<exists>s'. heatmapStep (localOffset e) s x = Inr s' \<and> (matrixDims (fst s') \<and> matrixDims (snd s'))"
      using heatmapStep_dims[of "fst s" "snd s" "localOffset e" x] by auto
    moreover have "heatmapStepD e s x = heatmapStep (localOffset e) s x"
      using assms x by (auto simp: heatmapStepD_def)
    ultimately show "\<exists>s'. heatmapStepD e s x = Inr s' \<and> (matrixDims (fst s') \<and> matrixDims (snd s'))"
      by simp
  qed
  then obtain s' where "foldE (heatmapStepD e) (replicate 12 (replicate 24 0), replicate 12 (replicate 24 0)) data = Inr s'"
    by blast
  then show ?thesis
    by (cases s') (simp add: calculateNegativeHeatmapD_def)
qed

lemma sumD_map: "foldl (\<lambda>s d. rnd e (s + f d)) 0 xs = sumD e (map f xs)"
  by (simp add: sumD_def foldl_map)

lemma calculateMeanD_meanPriceD:
  "data \<noteq> [] \<Longrightarrow> calculateMeanD e (map price data) = meanPriceD e data"
  by (simp add: calculateMeanD_def meanPriceD_def sumD_def)

text \<open>
  The result of \<open>calculateKPIs\<close> when it returns one: the series is not empty,
  the four nested computations have returned, and the scalars are the reference
  quantities, each rounded once.
\<close>

lemma calculateKPIsD_Inr:
  assumes "calculateKPIsD e (Some data) capacityMW options = Inr r"
  shows "data \<noteq> []"
    and "\<exists>rm mc pd nh.
      calculateRiskMetricsD e (calculateMonthlyRevenuesD e data) = Inr rm
    \<and> calculateMonthlyCaptureRatesD e data = Inr mc
    \<and> calculatePriceDistributionD e data = Inr pd
    \<and> calculateNegativeHeatmapD e data = Inr nh
    \<and> r = \<lparr>baseloadAvg = roundedD e 2 (meanPriceD e data),
           capturePrice = roundedD e 2 (capturePriceD e data),
           captureRate = roundedD e 1 (captureRateD e data),
           negativeHoursCount = length (negativeExposure data),
           negativeMWh = Math_round (productionD e (negativeExposure data)),
           negativePercentage = roundedD e 1 (negativeShareD e data),
           totalProduction = Math_round (productionD e data),
           merchantRevenue = Math_round (merchantD e options data),
           ppaRevenue = map_option (\<lambda>pp. Math_round (rnd e (productionD e data * pp))) (ppaPrice options),
           riskMetrics = rm,
           monthlyCaptureRates = mc,
           priceDistribution = pd,
           negativeHeatmap = nh,
           dataPoints = length data\<rparr>"
proof -
  show ne: "data \<noteq> []"
    using assms by (auto simp: calculateKPIsD_def)
  then have l: "(length data = 0) = False" by simp
  have A: "\<And>err. calculateRiskMetricsD e (calculateMonthlyRevenuesD e data) = Inl err \<Longrightarrow>
      calculateKPIsD e (Some data) capacityMW options = Inl err"
    by (simp only: calculateKPIsD_def Let_def option.case l if_False sum.case)
  obtain rm where rm: "calculateRiskMetricsD e (calculateMonthlyRevenuesD e data) = Inr rm"
    using A assms by (cases "calculateRiskMetricsD e (calculateMonthlyRevenuesD e data)") auto
  have B: "\<And>err. calculateMonthlyCaptureRatesD e data = Inl err \<Longrightarrow>
      calculateKPIsD e (Some data) capacityMW options = Inl err"
    by (simp only: calculateKPIsD_def Let_def option.case l if_False rm sum.case)
  obtain mc where mc: "calculateMonthlyCaptureRatesD e data = Inr mc"
    using B assms by (cases "calculateMonthlyCaptureRatesD e data") auto
  have C: "\<And>err. calculatePriceDistributionD e data = Inl err \<Longrightarrow>
      calculateKPIsD e (Some data) capacityMW options = Inl err"
    by (simp only: calculateKPIsD_def Let_def option.case l if_False rm mc sum.case)
  obtain pd where pd: "calculatePriceDistributionD e data = Inr pd"
    using C assms by (cases "calculatePriceDistributionD e data") auto
  have D: "\<And>err. calculateNegativeHeatmapD e data = Inl err \<Longrightarrow>
      calculateKPIsD e (Some data) capacityMW options = Inl err"
    by (simp only: calculateKPIsD_def Let_def option.case l if_False rm mc pd sum.case)
  obtain nh where nh: "calculateNegativeHeatmapD e data = Inr nh"
    using D assms by (cases "calculateNegativeHeatmapD e data") auto
  have f1: "\<And>xs. foldl (\<lambda>sum d. rnd e (sum + output_mw d)) 0 xs = productionD e xs"
    by (simp add: sumD_map productionD_def)
  have f2: "foldl (\<lambda>sum d. rnd e (sum + rnd e (price d * output_mw d))) 0 data = revenueD e data"
    by (simp add: sumD_map revenueD_def)
  have f4: "foldl (\<lambda>sum d. rnd e (sum + rnd e (effectivePrice options d * output_mw d))) 0 data
      = merchantD e options data"
    by (simp add: sumD_map merchantD_def)
  have f5: "filter (\<lambda>d. price d < 0 \<and> output_mw d > 0) data = negativeExposure data"
    by (simp add: negativeExposure_def)
  have c1: "(if productionD e data > 0 then rnd e (revenueD e data / productionD e data) else 0)
      = capturePriceD e data"
    by (simp add: capturePriceD_def)
  have c2: "(if meanPriceD e data > 0
             then rnd e (rnd e (capturePriceD e data / meanPriceD e data) * 100) else 0)
      = captureRateD e data"
    by (simp add: captureRateD_def)
  have c3: "(if productionD e data > 0
             then rnd e (rnd e (productionD e (negativeExposure data) / productionD e data) * 100)
             else 0)
      = negativeShareD e data"
    by (simp add: negativeShareD_def)
  have r2: "\<And>x. rnd e (real_of_int (Math_round (rnd e (x * 100))) / 100) = roundedD e 2 x"
    by (simp add: roundedD_def)
  have r1: "\<And>x. rnd e (real_of_int (Math_round (rnd e (x * 10))) / 10) = roundedD e 1 x"
    by (simp add: roundedD_def)
  have p: "map_option Math_round
        (case ppaPrice options of None \<Rightarrow> None | Some pp \<Rightarrow> Some (rnd e (productionD e data * pp)))
      = map_option (\<lambda>pp. Math_round (rnd e (productionD e data * pp))) (ppaPrice options)"
    by (cases "ppaPrice options") simp_all
  have "calculateKPIsD e (Some data) capacityMW options =
      Inr \<lparr>baseloadAvg = roundedD e 2 (meanPriceD e data),
           capturePrice = roundedD e 2 (capturePriceD e data),
           captureRate = roundedD e 1 (captureRateD e data),
           negativeHoursCount = length (negativeExposure data),
           negativeMWh = Math_round (productionD e (negativeExposure data)),
           negativePercentage = roundedD e 1 (negativeShareD e data),
           totalProduction = Math_round (productionD e data),
           merchantRevenue = Math_round (merchantD e options data),
           ppaRevenue = map_option (\<lambda>pp. Math_round (rnd e (productionD e data * pp))) (ppaPrice options),
           riskMetrics = rm,
           monthlyCaptureRates = mc,
           priceDistribution = pd,
           negativeHeatmap = nh,
           dataPoints = length data\<rparr>"
    by (simp only: calculateKPIsD_def Let_def option.case l if_False rm mc pd nh sum.case
          f1 f2 f4 f5 calculateMeanD_meanPriceD[OF ne] c1 c2 c3 r2 r1 p)
  with assms rm mc pd nh show "\<exists>rm mc pd nh.
      calculateRiskMetricsD e (calculateMonthlyRevenuesD e data) = Inr rm
    \<and> calculateMonthlyCaptureRatesD e data = Inr mc
    \<and> calculatePriceDistributionD e data = Inr pd
    \<and> calculateNegativeHeatmapD e data = Inr nh
    \<and> r = \<lparr>baseloadAvg = roundedD e 2 (meanPriceD e data),
           capturePrice = roundedD e 2 (capturePriceD e data),
           captureRate = roundedD e 1 (captureRateD e data),
           negativeHoursCount = length (negativeExposure data),
           negativeMWh = Math_round (productionD e (negativeExposure data)),
           negativePercentage = roundedD e 1 (negativeShareD e data),
           totalProduction = Math_round (productionD e data),
           merchantRevenue = Math_round (merchantD e options data),
           ppaRevenue = map_option (\<lambda>pp. Math_round (rnd e (productionD e data * pp))) (ppaPrice options),
           riskMetrics = rm,
           monthlyCaptureRates = mc,
           priceDistribution = pd,
           negativeHeatmap = nh,
           dataPoints = length data\<rparr>"
    by simp
qed

lemma calculateKPIsD_total:
  assumes "roundingLaws e" and "data \<noteq> []"
    and "length data \<le> maxArguments e" and "length data \<le> 2 ^ 53"
    and "\<forall>d \<in> set data. 0 < output_mw d \<longrightarrow> validDate (date d)"
  shows "\<exists>r. calculateKPIsD e (Some data) capacityMW options = Inr r"
proof -
  have l: "(length data = 0) = False" using assms(2) by simp
  have "length (calculateMonthlyRevenuesD e data) \<le> 2 ^ 53"
    using length_calculateMonthlyRevenuesD[of e data] assms(4) by linarith
  then obtain rm where rm: "calculateRiskMetricsD e (calculateMonthlyRevenuesD e data) = Inr rm"
    using calculateRiskMetricsD_total[OF assms(1)] by blast
  obtain mc where mc: "calculateMonthlyCaptureRatesD e data = Inr mc"
    using calculateMonthlyCaptureRatesD_total by blast
  obtain pd where pd: "calculatePriceDistributionD e data = Inr pd"
    using calculatePriceDistributionD_total[OF assms(3)] by blast
  obtain nh where nh: "calculateNegativeHeatmapD e data = Inr nh"
    using calculateNegativeHeatmapD_total[OF assms(5)] by blast
  show ?thesis
    by (simp only: calculateKPIsD_def Let_def option.case l if_False rm mc pd nh sum.case) blast
qed

text \<open>
  Claim C2. The claim has \<open>calculateKPIs\<close> return a result for every non-empty
  series, with no error but the no-data one. The code breaks it on a long series:
  \<open>calculatePriceDistribution\<close> passes all the prices as the arguments of one call,
  \<open>Math.min(...allPrices)\<close>, and the runtime throws a \<open>RangeError\<close> when the
  series is longer than the calls of the engine accept.
\<close>

theorem calculateKPIs_throws_RangeError:
  assumes "roundingLaws e" and "maxArguments e < length data" and "length data \<le> 2 ^ 53"
  shows "calculateKPIsD e (Some data) capacityMW options = Inl RangeError"
proof -
  have "0 < length data" using assms(2) by linarith
  then have l: "(length data = 0) = False" by simp
  have "length (calculateMonthlyRevenuesD e data) \<le> 2 ^ 53"
    using length_calculateMonthlyRevenuesD[of e data] assms(3) by linarith
  then obtain rm where rm: "calculateRiskMetricsD e (calculateMonthlyRevenuesD e data) = Inr rm"
    using calculateRiskMetricsD_total[OF assms(1)] by blast
  obtain mc where mc: "calculateMonthlyCaptureRatesD e data = Inr mc"
    using calculateMonthlyCaptureRatesD_total by blast
  have pd: "calculatePriceDistributionD e data = Inl RangeError"
    by (rule calculatePriceDistributionD_RangeError[OF assms(2)])
  show ?thesis
    by (simp only: calculateKPIsD_def Let_def option.case l if_False rm mc pd sum.case)
qed

theorem calculateKPIs_throws_RangeError_witness:
  "roundingLaws exampleEngine
   \<and> maxArguments exampleEngine < length longSeries
   \<and> length longSeries \<le> 2 ^ 53
   \<and> calculateKPIsD exampleEngine (Some longSeries) 1 noOptions = Inl RangeError"
proof -
  have a: "maxArguments exampleEngine < length longSeries"
    by (simp add: exampleEngine_def longSeries_def)
  have b: "length longSeries \<le> 2 ^ 53"
    by (simp add: longSeries_def)
  from calculateKPIs_throws_RangeError[OF roundingLaws_exampleEngine a b, of 1 noOptions]
    roundingLaws_exampleEngine a b
  show ?thesis by simp
qed

text \<open>
  The other exception of the KPI calculator: a record with production whose date is
  the \<open>Invalid Date\<close> makes the heatmap throw a \<open>TypeError\<close>.
\<close>

lemma invalid_date_TypeError:
  "calculateKPIsD exampleEngine
     (Some [\<lparr>timestamp = 10000000000000, price = 50, output_mw = 1,
             date = newDate (10000000000000 * 1000)\<rparr>]) 1 noOptions = Inl TypeError"
proof -
  let ?data = "[\<lparr>timestamp = 10000000000000, price = 50, output_mw = 1,
             date = newDate (10000000000000 * 1000)\<rparr>]"
  have l: "(length ?data = 0) = False" by simp
  have "length (calculateMonthlyRevenuesD exampleEngine ?data) \<le> 2 ^ 53"
    using length_calculateMonthlyRevenuesD[of exampleEngine ?data] by simp
  then obtain rm where rm: "calculateRiskMetricsD exampleEngine (calculateMonthlyRevenuesD exampleEngine ?data) = Inr rm"
    using calculateRiskMetricsD_total[OF roundingLaws_exampleEngine] by blast
  obtain mc where mc: "calculateMonthlyCaptureRatesD exampleEngine ?data = Inr mc"
    using calculateMonthlyCaptureRatesD_total by blast
  obtain pd where pd: "calculatePriceDistributionD exampleEngine ?data = Inr pd"
    using calculatePriceDistributionD_total[of ?data exampleEngine]
    by (auto simp: exampleEngine_def)
  have nh: "calculateNegativeHeatmapD exampleEngine ?data = Inl TypeError"
    by (simp add: calculateNegativeHeatmapD_def heatmapStepD_def validDate_def newDate_def)
  show ?thesis
    by (simp only: calculateKPIsD_def Let_def option.case l if_False rm mc pd nh sum.case)
qed

text \<open>
  Claim C5 (amended). Every scalar metric that \<open>calculateKPIs\<close> returns is the
  quantity computed at the full precision of the double arithmetic, rounded once at
  the result boundary: \<open>baseloadAvg\<close> and \<open>capturePrice\<close> to 2 decimals,
  \<open>captureRate\<close> and \<open>negativePercentage\<close> to 1 decimal, \<open>negativeMWh\<close>,
  \<open>totalProduction\<close>, \<open>merchantRevenue\<close> and \<open>ppaRevenue\<close> (when a PPA
  price is given) to integers; \<open>negativeHoursCount\<close> and \<open>dataPoints\<close> are
  counts.
\<close>

theorem calculateKPIs_rounds_at_the_boundary:
  assumes "calculateKPIsD e (Some data) capacityMW options = Inr r"
  shows "baseloadAvg r = roundedD e 2 (meanPriceD e data)
    \<and> capturePrice r = roundedD e 2 (capturePriceD e data)
    \<and> captureRate r = roundedD e 1 (captureRateD e data)
    \<and> negativePercentage r = roundedD e 1 (negativeShareD e data)
    \<and> negativeMWh r = Math_round (productionD e (negativeExposure data))
    \<and> totalProduction r = Math_round (productionD e data)
    \<and> merchantRevenue r = Math_round (merchantD e options data)
    \<and> ppaRevenue r
        = map_option (\<lambda>pp. Math_round (rnd e (productionD e data * pp))) (ppaPrice options)
    \<and> negativeHoursCount r = length (negativeExposure data)
    \<and> dataPoints r = length data"
proof -
  from calculateKPIsD_Inr(2)[OF assms] obtain rm mc pd nh where
    "r = \<lparr>baseloadAvg = roundedD e 2 (meanPriceD e data),
           capturePrice = roundedD e 2 (capturePriceD e data),
           captureRate = roundedD e 1 (captureRateD e data),
           negativeHoursCount = length (negativeExposure data),
           negativeMWh = Math_round (productionD e (negativeExposure data)),
           negativePercentage = roundedD e 1 (negativeShareD e data),
           totalProduction = Math_round (productionD e data),
           merchantRevenue = Math_round (merchantD e options data),
           ppaRevenue = map_option (\<lambda>pp. Math_round (rnd e (productionD e data * pp))) (ppaPrice options),
           riskMetrics = rm,
           monthlyCaptureRates = mc,
           priceDistribution = pd,
           negativeHeatmap = nh,
           dataPoints = length data\<rparr>"
    by blast
  then show ?thesis by simp
qed

lemma kpiExample_returns:
  "\<exists>r. calculateKPIsD exampleEngine (Some kpiExample) 1 kpiOptions = Inr r"
  by (rule calculateKPIsD_total[OF roundingLaws_exampleEngine])
     (simp_all add: kpiExample_def exampleEngine_def validDate_def)

lemma kpiExample_values:
  "meanPriceD exampleEngine kpiExample = 16"
  "productionD exampleEngine kpiExample = 10"
  "revenueD exampleEngine kpiExample = 120"
  "merchantD exampleEngine kpiOptions kpiExample = 130"
  "length (negativeExposure kpiExample) = 1"
  "productionD exampleEngine (negativeExposure kpiExample) = 5 / 2"
  by (simp_all add: meanPriceD_def productionD_def revenueD_def merchantD_def sumD_def
        negativeExposure_def kpiExample_def kpiOptions_def exampleEngine_def effectivePrice_def)

lemma kpiExample_rates:
  "capturePriceD exampleEngine kpiExample = 12"
  "captureRateD exampleEngine kpiExample = 75"
  "negativeShareD exampleEngine kpiExample = 25"
  by (simp_all add: capturePriceD_def captureRateD_def negativeShareD_def
        kpiExample_values(1,2,3,6))
     (simp_all add: exampleEngine_def)

lemma roundedD_exampleEngine_values:
  "roundedD exampleEngine 2 16 = 16"
  "roundedD exampleEngine 2 12 = 12"
  "roundedD exampleEngine 1 75 = 75"
  "roundedD exampleEngine 1 25 = 25"
  "roundedD exampleEngine (Suc 0) 75 = 75"
  "roundedD exampleEngine (Suc 0) 25 = 25"
  by (simp_all add: roundedD_def exampleEngine_def Math_round_def)

theorem calculateKPIs_rounds_at_the_boundary_witness:
  "\<exists>r. calculateKPIsD exampleEngine (Some kpiExample) 1 kpiOptions = Inr r
      \<and> baseloadAvg r = 16 \<and> capturePrice r = 12 \<and> captureRate r = 75
      \<and> negativePercentage r = 25 \<and> negativeMWh r = 3 \<and> totalProduction r = 10
      \<and> merchantRevenue r = 130 \<and> ppaRevenue r = Some 500
      \<and> negativeHoursCount r = 1 \<and> dataPoints r = 4"
proof -
  from kpiExample_returns obtain r where
    r: "calculateKPIsD exampleEngine (Some kpiExample) 1 kpiOptions = Inr r" by blast
  have pp: "ppaPrice kpiOptions = Some 50" by (simp add: kpiOptions_def)
  have l: "length kpiExample = 4" by (simp add: kpiExample_def)
  have e: "rnd exampleEngine = (\<lambda>x. x)" by (simp add: exampleEngine_def)
  from calculateKPIs_rounds_at_the_boundary[OF r]
  have "baseloadAvg r = 16 \<and> capturePrice r = 12 \<and> captureRate r = 75
      \<and> negativePercentage r = 25 \<and> negativeMWh r = 3 \<and> totalProduction r = 10
      \<and> merchantRevenue r = 130 \<and> ppaRevenue r = Some 500
      \<and> negativeHoursCount r = 1 \<and> dataPoints r = 4"
    by (simp add: kpiExample_values kpiExample_rates roundedD_exampleEngine_values pp l e
          Math_round_def)
  with r show ?thesis by blast
qed

lemma foldl_revenue_accD:
  "foldl (\<lambda>a d. \<lparr>acc_revenue = rnd e (acc_revenue a + rnd e (price d * output_mw d)),
                   acc_production = rnd e (acc_production a + output_mw d)\<rparr>)
     \<lparr>acc_revenue = r, acc_production = q\<rparr> xs
   = \<lparr>acc_revenue = foldl (\<lambda>s x. rnd e (s + x)) r (map (\<lambda>d. rnd e (price d * output_mw d)) xs),
      acc_production = foldl (\<lambda>s x. rnd e (s + x)) q (map output_mw xs)\<rparr>"
  by (induction xs arbitrary: r q) simp_all

lemma calculateMonthlyRevenuesD_single_month:
  assumes "data \<noteq> []" and "\<And>d. d \<in> set data \<Longrightarrow> monthKeyD e (date d) = k"
  shows "calculateMonthlyRevenuesD e data =
     [\<lparr>month = k, revenue = revenueD e data, production = productionD e data\<rparr>]"
proof -
  have "foldl (\<lambda>m d. upsert (monthKeyD e (date d)) \<lparr>acc_revenue = 0, acc_production = 0\<rparr>
                     (\<lambda>a. \<lparr>acc_revenue = rnd e (acc_revenue a + rnd e (price d * output_mw d)),
                           acc_production = rnd e (acc_production a + output_mw d)\<rparr>) m) [] data
      = [(k, foldl (\<lambda>a d. \<lparr>acc_revenue = rnd e (acc_revenue a + rnd e (price d * output_mw d)),
                           acc_production = rnd e (acc_production a + output_mw d)\<rparr>)
              \<lparr>acc_revenue = 0, acc_production = 0\<rparr> data)]"
    by (rule foldl_upsert_same_key_start[where key = "\<lambda>d. monthKeyD e (date d)"
          and f = "\<lambda>d a. \<lparr>acc_revenue = rnd e (acc_revenue a + rnd e (price d * output_mw d)),
                           acc_production = rnd e (acc_production a + output_mw d)\<rparr>", OF assms])
  then show ?thesis
    by (simp add: calculateMonthlyRevenuesD_def foldl_revenue_accD revenueD_def productionD_def
          sumD_def)
qed

lemma percentileD_singleton: "percentileD e [x] p = Inr v \<Longrightarrow> v = x"
  by (auto simp: percentileD_def Let_def readNum_def split: if_splits sum.splits)

lemma calculateRiskMetricsD_single:
  assumes "calculateRiskMetricsD e [\<lparr>month = k, revenue = x, production = y\<rparr>] = Inr rm"
  shows "percentileD e [x] 50 = Inr x"
    and "rm = \<lparr>p5 = Math_round x, p50 = Math_round x, p95 = Math_round x\<rparr>"
proof -
  from assms obtain a b c where a: "percentileD e [x] 5 = Inr a"
    and b: "percentileD e [x] 50 = Inr b" and c: "percentileD e [x] 95 = Inr c"
    and rm: "rm = \<lparr>p5 = Math_round a, p50 = Math_round b, p95 = Math_round c\<rparr>"
    by (auto simp: calculateRiskMetricsD_def Let_def split: sum.splits)
  note ea = percentileD_singleton[OF a] and eb = percentileD_singleton[OF b]
    and ec = percentileD_singleton[OF c]
  show "percentileD e [x] 50 = Inr x" using b eb by simp
  show "rm = \<lparr>p5 = Math_round x, p50 = Math_round x, p95 = Math_round x\<rparr>"
    using rm ea eb ec by simp
qed

text \<open>
  Claim C8 (amended). When \<open>calculateKPIs\<close> returns a result for a series whose
  records all have one month key, the monthly revenues are the single revenue of that
  month: the sum of price times output as the engine accumulates it in doubles, from
  left to right, every product and every partial sum rounded. The percentile of that
  single value is the value itself, and the P50 that \<open>calculateKPIs\<close> returns is
  that revenue rounded to the nearest integer by \<open>Math.round\<close>.
\<close>

theorem single_month_p50_is_rounded_revenue:
  assumes "calculateKPIsD e (Some data) capacityMW options = Inr r"
    and "\<forall>d \<in> set data. monthKeyD e (date d) = k"
  shows "map revenue (calculateMonthlyRevenuesD e data) = [revenueD e data]
    \<and> percentileD e [revenueD e data] 50 = Inr (revenueD e data)
    \<and> p50 (riskMetrics r) = Math_round (revenueD e data)"
proof -
  have k: "\<And>d. d \<in> set data \<Longrightarrow> monthKeyD e (date d) = k"
    using assms(2) by simp
  note ne = calculateKPIsD_Inr(1)[OF assms(1)]
  note m = calculateMonthlyRevenuesD_single_month[OF ne k]
  from calculateKPIsD_Inr(2)[OF assms(1)] obtain rm where
    rm: "calculateRiskMetricsD e (calculateMonthlyRevenuesD e data) = Inr rm"
    and f: "riskMetrics r = rm"
    by force
  have rm': "calculateRiskMetricsD e
      [\<lparr>month = k, revenue = revenueD e data, production = productionD e data\<rparr>] = Inr rm"
    using rm by (simp only: m)
  note s = calculateRiskMetricsD_single[OF rm']
  show ?thesis
    using s f by (simp add: m)
qed

lemma monthKey_first_day:
  "0 \<le> d \<Longrightarrow> d < 86400000 \<Longrightarrow> monthKey utc d = monthKey utc 0"
  by (simp add: monthKey_def getFullYear_def getMonth_def LocalTime_def utc_def msPerDay_def)

lemma monthExample_revenue: "revenueD exampleEngine monthExample = 63 / 2"
  by (simp add: revenueD_def sumD_def monthExample_def exampleEngine_def)

theorem single_month_p50_is_rounded_revenue_witness:
  "list_all (\<lambda>d. monthKeyD exampleEngine (date d) = monthKey utc 0) monthExample
   \<and> (\<exists>r. calculateKPIsD exampleEngine (Some monthExample) 1 noOptions = Inr r
         \<and> revenueD exampleEngine monthExample = 63 / 2
         \<and> percentileD exampleEngine [63 / 2] 50 = Inr (63 / 2)
         \<and> p50 (riskMetrics r) = 32)"
proof -
  have a: "monthKey utc 3600000 = monthKey utc 0" "monthKey utc 7200000 = monthKey utc 0"
    by (rule monthKey_first_day; simp)+
  have k: "list_all (\<lambda>d. monthKeyD exampleEngine (date d) = monthKey utc 0) monthExample"
    by (simp add: monthExample_def monthKeyD_def validDate_def exampleEngine_def a)
  then have k': "\<forall>d \<in> set monthExample. monthKeyD exampleEngine (date d) = monthKey utc 0"
    by (simp add: list_all_iff)
  have "\<exists>r. calculateKPIsD exampleEngine (Some monthExample) 1 noOptions = Inr r"
    by (rule calculateKPIsD_total[OF roundingLaws_exampleEngine])
       (simp_all add: monthExample_def exampleEngine_def validDate_def)
  then obtain r where r: "calculateKPIsD exampleEngine (Some monthExample) 1 noOptions = Inr r"
    by blast
  from single_month_p50_is_rounded_revenue[OF r k']
  have "percentileD exampleEngine [63 / 2] 50 = Inr (63 / 2) \<and> p50 (riskMetrics r) = 32"
    by (simp add: monthExample_revenue Math_round_def)
  with k r monthExample_revenue show ?thesis by blast
qed

section \<open>Properties of the price distribution in double arithmetic\<close>

lemma priceBinsD_edges:
  assumes "data = d # ds"
  shows "priceBinsD e (price d) (map price ds) = binsLoop (lowEdgeD e data) (highEdgeD e data)"
proof -
  have "set (price d # map price ds) = price ` set data" using assms by simp
  then show ?thesis
    by (simp only: priceBinsD_def foldl_min_Min foldl_max_Max lowEdgeD_def highEdgeD_def)
qed

lemma binPercentagesD_distBinOfD:
  assumes "data \<noteq> []" and "bin_max b = bin_min b + 10"
  shows "binPercentagesD e (length (map price data)) (length (map price (pvHours data)))
           (b\<lparr>allCount := length (filter (\<lambda>p. inBin p b) (map price data)),
              pvCount := length (filter (\<lambda>p. inBin p b) (map price (pvHours data)))\<rparr>)
         = Inr (distBinOfD e data b)"
proof -
  define x where "x = b\<lparr>allCount := length (filter (\<lambda>p. inBin p b) (map price data)),
              pvCount := length (filter (\<lambda>p. inBin p b) (map price (pvHours data)))\<rparr>"
  have w: "(\<lambda>p. inBin p b) = inWindow (bin_min b)"
    by (intro ext) (simp add: inBin_def inWindow_def assms(2))
  have fields: "allCount x = countIn (bin_min b) (map price data)"
    "pvCount x = countIn (bin_min b) (map price (pvHours data))"
    "bin_range x = bin_range b" "bin_min x = bin_min b"
    unfolding x_def w countIn_def by simp_all
  have n: "(real (length data) = 0) = False" using assms(1) by simp
  have l: "length (map price data) = length data"
    "length (map price (pvHours data)) = length (pvHours data)" by simp_all
  have "binPercentagesD e (length (map price data)) (length (map price (pvHours data))) x
      = Inr (distBinOfD e data b)"
    unfolding binPercentagesD_def jsdivD_def distBinOfD_def shareD_def fields l
    by (simp only: n if_False sum.case) auto
  then show ?thesis unfolding x_def .
qed

lemma calculatePriceDistributionD_bins:
  assumes "data \<noteq> []" and "calculatePriceDistributionD e data = Inr pd"
  shows "pd = map (distBinOfD e data) (binsLoop (lowEdgeD e data) (highEdgeD e data))"
proof -
  from assms(1) obtain d ds where dd: "data = d # ds" by (cases data) auto
  let ?B = "binsLoop (lowEdgeD e data) (highEdgeD e data)"
  let ?cA = "\<lambda>b. length (filter (\<lambda>p. inBin p b) (map price data))"
  let ?cP = "\<lambda>b. length (filter (\<lambda>p. inBin p b) (map price (pvHours data)))"
  have sB: "sorted_wrt (\<lambda>a b. bin_max a \<le> bin_min b) ?B" by (rule binsLoop_sorted)
  have f1: "fillAll ?B (map price data) = map (\<lambda>b. b\<lparr>allCount := allCount b + ?cA b\<rparr>) ?B"
    by (rule fillAll_counts[OF sB])
  have s1: "sorted_wrt (\<lambda>a b. bin_max a \<le> bin_min b) (map (\<lambda>b. b\<lparr>allCount := allCount b + ?cA b\<rparr>) ?B)"
    using sB by (simp add: sorted_wrt_map)
  have f2: "fillPv (map (\<lambda>b. b\<lparr>allCount := allCount b + ?cA b\<rparr>) ?B) (map price (pvHours data))
      = map (\<lambda>b. b\<lparr>pvCount := pvCount b + ?cP b\<rparr>) (map (\<lambda>b. b\<lparr>allCount := allCount b + ?cA b\<rparr>) ?B)"
    by (rule fillPv_counts[OF s1])
  have f3: "map (\<lambda>b. b\<lparr>pvCount := pvCount b + ?cP b\<rparr>) (map (\<lambda>b. b\<lparr>allCount := allCount b + ?cA b\<rparr>) ?B)
      = map (\<lambda>b. b\<lparr>allCount := ?cA b, pvCount := ?cP b\<rparr>) ?B"
  proof -
    have "\<And>b. b \<in> set ?B \<Longrightarrow>
        (b\<lparr>allCount := allCount b + ?cA b\<rparr>)\<lparr>pvCount := pvCount (b\<lparr>allCount := allCount b + ?cA b\<rparr>)
            + ?cP (b\<lparr>allCount := allCount b + ?cA b\<rparr>)\<rparr>
        = b\<lparr>allCount := ?cA b, pvCount := ?cP b\<rparr>"
      using binsLoop_member by (simp add: inBin_def)
    then show ?thesis by (simp add: o_def)
  qed
  have m: "mapE (binPercentagesD e (length (map price data)) (length (map price (pvHours data))))
        (map (\<lambda>b. b\<lparr>allCount := ?cA b, pvCount := ?cP b\<rparr>) ?B)
      = Inr (map (distBinOfD e data) ?B)"
  proof -
    have "mapE (binPercentagesD e (length (map price data)) (length (map price (pvHours data))))
        (map (\<lambda>b. b\<lparr>allCount := ?cA b, pvCount := ?cP b\<rparr>) ?B)
      = Inr (map (\<lambda>b'. distBinOfD e data (b'\<lparr>allCount := 0, pvCount := 0\<rparr>))
          (map (\<lambda>b. b\<lparr>allCount := ?cA b, pvCount := ?cP b\<rparr>) ?B))"
    proof (rule mapE_map)
      fix x assume "x \<in> set (map (\<lambda>b. b\<lparr>allCount := ?cA b, pvCount := ?cP b\<rparr>) ?B)"
      then obtain b where b: "b \<in> set ?B" and x: "x = b\<lparr>allCount := ?cA b, pvCount := ?cP b\<rparr>"
        by auto
      from binsLoop_member[OF b] have bm: "bin_max b = bin_min b + 10"
        and z: "allCount b = 0" "pvCount b = 0" by simp_all
      have "x\<lparr>allCount := 0, pvCount := 0\<rparr> = b" unfolding x using z by simp
      with binPercentagesD_distBinOfD[OF assms(1) bm]
      show "binPercentagesD e (length (map price data)) (length (map price (pvHours data))) x
          = Inr (distBinOfD e data (x\<lparr>allCount := 0, pvCount := 0\<rparr>))"
        unfolding x by simp
    qed
    also have "map (\<lambda>b'. distBinOfD e data (b'\<lparr>allCount := 0, pvCount := 0\<rparr>))
          (map (\<lambda>b. b\<lparr>allCount := ?cA b, pvCount := ?cP b\<rparr>) ?B) = map (distBinOfD e data) ?B"
    proof -
      have "\<And>b. b \<in> set ?B \<Longrightarrow> (b\<lparr>allCount := ?cA b, pvCount := ?cP b\<rparr>)\<lparr>allCount := 0, pvCount := 0\<rparr> = b"
        using binsLoop_member by simp
      then show ?thesis by (simp add: o_def)
    qed
    finally show ?thesis .
  qed
  have pb: "priceBinsD e (price d) (map price ds) = ?B" by (rule priceBinsD_edges[OF dd])
  have nr: "\<not> maxArguments e < length (map price data)"
    using assms(2) by (auto simp: calculatePriceDistributionD_def Let_def split: if_splits)
  have "calculatePriceDistributionD e data =
      mapE (binPercentagesD e (length (map price data)) (length (map price (pvHours data))))
        (fillPv (fillAll ?B (map price data)) (map price (pvHours data)))"
    unfolding calculatePriceDistributionD_def Let_def pvHours_def[symmetric]
    using nr by (simp add: dd pb[unfolded dd])
  then have "calculatePriceDistributionD e data = Inr (map (distBinOfD e data) ?B)"
    by (simp only: f1 f2 f3 m)
  with assms(2) show ?thesis by simp
qed

lemma edges_dvdD: "10 dvd (highEdgeD e data - lowEdgeD e data)"
  by (simp add: highEdgeD_def lowEdgeD_def)

lemma covered_by_a_binD:
  assumes "real_of_int (lowEdgeD e data) \<le> Min (price ` set data)"
    and "Max (price ` set data) < real_of_int (highEdgeD e data)" and "d \<in> set data"
  shows "\<exists>m \<in> set (map bin_min (binsLoop (lowEdgeD e data) (highEdgeD e data))). inWindow m (price d)"
proof -
  have "Min (price ` set data) \<le> price d" "price d \<le> Max (price ` set data)"
    using assms(3) by simp_all
  with assms(1,2)
  have "real_of_int (lowEdgeD e data) \<le> price d" "price d < real_of_int (highEdgeD e data)"
    by linarith+
  from binsLoop_cover[OF this] obtain b where b: "b \<in> set (binsLoop (lowEdgeD e data) (highEdgeD e data))"
    and i: "inBin (price d) b" by blast
  from binsLoop_member[OF b] i have "inWindow (bin_min b) (price d)"
    by (simp add: inBin_def inWindow_def)
  with b show ?thesis by auto
qed

lemma priceDistributionD_of_kpis:
  assumes "calculateKPIsD e (Some data) capacityMW options = Inr r"
  shows "priceDistribution r = map (distBinOfD e data) (binsLoop (lowEdgeD e data) (highEdgeD e data))"
proof -
  note ne = calculateKPIsD_Inr(1)[OF assms]
  from calculateKPIsD_Inr(2)[OF assms] obtain pd where
    pd: "calculatePriceDistributionD e data = Inr pd" and f: "priceDistribution r = pd"
    by force
  from calculatePriceDistributionD_bins[OF ne pd] f show ?thesis by simp
qed

text \<open>
  Claim C6 (amended). When \<open>calculateKPIs\<close> returns a result, its histogram has
  bins of width 10 whose lower edges run from \<open>floor(min/10) * 10\<close> up to
  \<open>ceil(max/10) * 10\<close>, the two quotients being rounded to doubles before
  \<open>Math.floor\<close> and \<open>Math.ceil\<close>; the percentage of a bin, for each of the two
  populations (all hours, and hours with output > 0), is the share of the
  population's prices in the bin's window as the engine computes it,
  \<open>Math.round((count / total) * 1000) / 10\<close> in double arithmetic (0 for an empty
  second population). When the lowest edge is not above the lowest price and the
  highest price is below the highest edge, every price lies in exactly one bin, so
  the bin counts of each population add up to the size of the population.
\<close>

theorem histogram_bins_and_shares:
  assumes "calculateKPIsD e (Some data) capacityMW options = Inr r"
  shows "map dist_min (priceDistribution r) =
        map (\<lambda>j. lowEdgeD e data + 10 * int j)
          [0..<nat ((highEdgeD e data - lowEdgeD e data) div 10)]
    \<and> (\<forall>b \<in> set (priceDistribution r).
          allPct b = shareD e (countIn (dist_min b) (map price data)) (length data))
    \<and> (\<forall>b \<in> set (priceDistribution r).
          pvPct b = (if pvHours data = [] then 0
                     else shareD e (countIn (dist_min b) (map price (pvHours data)))
                            (length (pvHours data))))
    \<and> (real_of_int (lowEdgeD e data) \<le> Min (price ` set data)
        \<and> Max (price ` set data) < real_of_int (highEdgeD e data) \<longrightarrow>
          (\<forall>d \<in> set data.
              length (filter (\<lambda>b. inWindow (dist_min b) (price d)) (priceDistribution r)) = 1)
        \<and> (\<Sum>b\<leftarrow>priceDistribution r. countIn (dist_min b) (map price data)) = length data
        \<and> (\<Sum>b\<leftarrow>priceDistribution r. countIn (dist_min b) (map price (pvHours data)))
            = length (pvHours data))"
proof -
  let ?B = "binsLoop (lowEdgeD e data) (highEdgeD e data)"
  let ?ms = "map bin_min ?B"
  note pd = priceDistributionD_of_kpis[OF assms]
  have mins: "map dist_min (priceDistribution r) = ?ms"
    unfolding pd by (simp add: distBinOfD_def o_def)
  have a: "map dist_min (priceDistribution r) =
        map (\<lambda>j. lowEdgeD e data + 10 * int j)
          [0..<nat ((highEdgeD e data - lowEdgeD e data) div 10)]"
    unfolding mins by (rule binsLoop_mins[OF edges_dvdD])
  have b: "\<forall>b \<in> set (priceDistribution r).
          allPct b = shareD e (countIn (dist_min b) (map price data)) (length data)"
    unfolding pd by (auto simp: distBinOfD_def)
  have c: "\<forall>b \<in> set (priceDistribution r).
          pvPct b = (if pvHours data = [] then 0
                     else shareD e (countIn (dist_min b) (map price (pvHours data)))
                            (length (pvHours data)))"
    unfolding pd by (auto simp: distBinOfD_def)
  have d: "(\<forall>d \<in> set data.
              length (filter (\<lambda>b. inWindow (dist_min b) (price d)) (priceDistribution r)) = 1)
        \<and> (\<Sum>b\<leftarrow>priceDistribution r. countIn (dist_min b) (map price data)) = length data
        \<and> (\<Sum>b\<leftarrow>priceDistribution r. countIn (dist_min b) (map price (pvHours data)))
            = length (pvHours data)"
    if lo: "real_of_int (lowEdgeD e data) \<le> Min (price ` set data)"
      and top: "Max (price ` set data) < real_of_int (highEdgeD e data)"
  proof -
    have srt: "sorted_wrt (\<lambda>a b. a + 10 \<le> b) ?ms" by (rule binsLoop_mins_sorted)
    have cov: "\<And>d. d \<in> set data \<Longrightarrow> \<exists>m \<in> set ?ms. inWindow m (price d)"
      by (rule covered_by_a_binD[OF lo top])
    have one: "\<forall>d \<in> set data.
        length (filter (\<lambda>b. inWindow (dist_min b) (price d)) (priceDistribution r)) = 1"
    proof
      fix d assume d: "d \<in> set data"
      have "length (filter (\<lambda>m. inWindow m (price d)) (map dist_min (priceDistribution r))) = 1"
        unfolding mins by (rule exactly_one_window[OF srt cov[OF d]])
      then show "length (filter (\<lambda>b. inWindow (dist_min b) (price d)) (priceDistribution r)) = 1"
        by (simp add: filter_map o_def)
    qed
    have "(\<Sum>m\<leftarrow>?ms. countIn m (map price data)) = length (map price data)"
      by (rule sum_countIn[OF srt]) (use cov in auto)
    then have s1: "(\<Sum>b\<leftarrow>priceDistribution r. countIn (dist_min b) (map price data)) = length data"
      unfolding mins[symmetric] by (simp add: o_def)
    have "(\<Sum>m\<leftarrow>?ms. countIn m (map price (pvHours data))) = length (map price (pvHours data))"
      by (rule sum_countIn[OF srt]) (use cov in \<open>auto simp: pvHours_def\<close>)
    then have s2: "(\<Sum>b\<leftarrow>priceDistribution r. countIn (dist_min b) (map price (pvHours data)))
            = length (pvHours data)"
      unfolding mins[symmetric] by (simp add: o_def)
    from one s1 s2 show ?thesis by simp
  qed
  from a b c d show ?thesis by blast
qed

lemma histogramExample_edges:
  "lowEdgeD exampleEngine histogramExample = 0"
  "highEdgeD exampleEngine histogramExample = 30"
  "Min (price ` set histogramExample) = 5"
  "Max (price ` set histogramExample) = 25"
  "length histogramExample = 4"
  "map price histogramExample = [5, 15, 35 / 2, 25]"
  "map price (pvHours histogramExample) = [5, 25]"
  by (simp_all add: histogramExample_def lowEdgeD_def highEdgeD_def exampleEngine_def pvHours_def)

lemma shareD_exampleEngine_values:
  "shareD exampleEngine 0 2 = 0"
  "shareD exampleEngine 1 2 = 50"
  "shareD exampleEngine 1 4 = 25"
  "shareD exampleEngine 2 4 = 50"
  "shareD exampleEngine (Suc 0) 2 = 50"
  "shareD exampleEngine (Suc 0) 4 = 25"
  "shareD exampleEngine (Suc (Suc 0)) 4 = 50"
  by (simp_all add: shareD_def exampleEngine_def Math_round_def)

theorem histogram_bins_and_shares_witness:
  "real_of_int (lowEdgeD exampleEngine histogramExample) \<le> Min (price ` set histogramExample)
   \<and> Max (price ` set histogramExample) < real_of_int (highEdgeD exampleEngine histogramExample)
   \<and> (\<exists>r. calculateKPIsD exampleEngine (Some histogramExample) 1 noOptions = Inr r
         \<and> map dist_min (priceDistribution r) = [0, 10, 20]
         \<and> map allPct (priceDistribution r) = [25, 50, 25]
         \<and> map pvPct (priceDistribution r) = [50, 0, 50]
         \<and> (\<Sum>b\<leftarrow>priceDistribution r. countIn (dist_min b) (map price histogramExample)) = 4
         \<and> (\<Sum>b\<leftarrow>priceDistribution r. countIn (dist_min b) (map price (pvHours histogramExample))) = 2)"
proof -
  have lo: "real_of_int (lowEdgeD exampleEngine histogramExample) \<le> Min (price ` set histogramExample)"
    and hi: "Max (price ` set histogramExample) < real_of_int (highEdgeD exampleEngine histogramExample)"
    by (simp_all add: histogramExample_edges)
  have "\<exists>r. calculateKPIsD exampleEngine (Some histogramExample) 1 noOptions = Inr r"
    by (rule calculateKPIsD_total[OF roundingLaws_exampleEngine])
       (simp_all add: histogramExample_def exampleEngine_def validDate_def)
  then obtain r where r: "calculateKPIsD exampleEngine (Some histogramExample) 1 noOptions = Inr r"
    by blast
  note h = histogram_bins_and_shares[OF r]
  have pvne: "(pvHours histogramExample = []) = False"
    by (simp add: histogramExample_def pvHours_def)
  have lp: "length (pvHours histogramExample) = 2"
    by (simp add: histogramExample_def pvHours_def)
  have mins: "map dist_min (priceDistribution r) = [0, 10, 20]"
    using h by (simp add: histogramExample_edges upt_3)
  have all: "\<And>b. b \<in> set (priceDistribution r) \<Longrightarrow>
      allPct b = shareD exampleEngine (countIn (dist_min b) [5, 15, 35 / 2, 25]) 4"
    using h by (simp add: histogramExample_edges)
  have pv: "\<And>b. b \<in> set (priceDistribution r) \<Longrightarrow>
      pvPct b = shareD exampleEngine (countIn (dist_min b) [5, 25]) 2"
    using h by (simp add: histogramExample_edges pvne lp)
  have "map allPct (priceDistribution r)
      = map (\<lambda>m. shareD exampleEngine (countIn m [5, 15, 35 / 2, 25]) 4)
          (map dist_min (priceDistribution r))"
    using all by (simp add: o_def)
  then have A: "map allPct (priceDistribution r) = [25, 50, 25]"
    unfolding mins by (simp add: countIn_def inWindow_def shareD_exampleEngine_values)
  have "map pvPct (priceDistribution r)
      = map (\<lambda>m. shareD exampleEngine (countIn m [5, 25]) 2)
          (map dist_min (priceDistribution r))"
    using pv by (simp add: o_def)
  then have P: "map pvPct (priceDistribution r) = [50, 0, 50]"
    unfolding mins by (simp add: countIn_def inWindow_def shareD_exampleEngine_values)
  have S: "(\<Sum>b\<leftarrow>priceDistribution r. countIn (dist_min b) (map price histogramExample)) = 4"
    "(\<Sum>b\<leftarrow>priceDistribution r. countIn (dist_min b) (map price (pvHours histogramExample))) = 2"
  proof -
    note s0 = mp[OF h[THEN conjunct2, THEN conjunct2, THEN conjunct2] conjI[OF lo hi]]
    from s0[THEN conjunct2, THEN conjunct1]
    show "(\<Sum>b\<leftarrow>priceDistribution r. countIn (dist_min b) (map price histogramExample)) = 4"
      by (simp only: histogramExample_edges(5))
    from s0[THEN conjunct2, THEN conjunct2]
    show "(\<Sum>b\<leftarrow>priceDistribution r. countIn (dist_min b) (map price (pvHours histogramExample))) = 2"
      by (simp only: lp)
  qed
  have "calculateKPIsD exampleEngine (Some histogramExample) 1 noOptions = Inr r
         \<and> map dist_min (priceDistribution r) = [0, 10, 20]
         \<and> map allPct (priceDistribution r) = [25, 50, 25]
         \<and> map pvPct (priceDistribution r) = [50, 0, 50]
         \<and> (\<Sum>b\<leftarrow>priceDistribution r. countIn (dist_min b) (map price histogramExample)) = 4
         \<and> (\<Sum>b\<leftarrow>priceDistribution r. countIn (dist_min b) (map price (pvHours histogramExample))) = 2"
    by (intro conjI r mins A P S)
  then have "\<exists>r. calculateKPIsD exampleEngine (Some histogramExample) 1 noOptions = Inr r
         \<and> map dist_min (priceDistribution r) = [0, 10, 20]
         \<and> map allPct (priceDistribution r) = [25, 50, 25]
         \<and> map pvPct (priceDistribution r) = [50, 0, 50]
         \<and> (\<Sum>b\<leftarrow>priceDistribution r. countIn (dist_min b) (map price histogramExample)) = 4
         \<and> (\<Sum>b\<leftarrow>priceDistribution r. countIn (dist_min b) (map price (pvHours histogramExample))) = 2"
    by (rule exI)
  with lo hi show ?thesis by (intro conjI)
qed

section \<open>Properties of the representative period selector in double arithmetic\<close>

lemma calculateStdDevD_stdDevD:
  "xs \<noteq> [] \<Longrightarrow> calculateStdDevD e xs = stdDevD e xs"
  by (simp add: calculateStdDevD_def stdDevD_def calculateMeanD_def sumD_def Let_def)

lemma weekMetricD_total: "w \<noteq> [] \<Longrightarrow> \<exists>m. weekMetricD e w = Inr m"
  by (cases w) (simp_all add: weekMetricD_def)

lemma weekMetricD_fields:
  "weekMetricD e w = Inr m \<Longrightarrow>
     w \<noteq> [] \<and> week_data m = w \<and> volatility m = stdDevD e (map price w)"
  by (cases w) (auto simp: weekMetricD_def calculateStdDevD_stdDevD)

lemma all2_member_left:
  "list_all2 P xs ys \<Longrightarrow> x \<in> set xs \<Longrightarrow> \<exists>y \<in> set ys. P x y"
  by (induction rule: list_all2_induct) auto

lemma sorted_last_max:
  assumes "sorted (map f s)" and "m \<in> set s"
  shows "f m \<le> f (s ! (length s - 1))"
proof -
  from assms(2) obtain i where i: "i < length s" "s ! i = m"
    by (auto simp: in_set_conv_nth)
  have "map f s ! i \<le> map f s ! (length s - 1)"
    using assms(1) i(1) by (intro sorted_nth_mono) simp_all
  with i show ?thesis by simp
qed

text \<open>
  Claim C9. For every input with at least 168 records, \<open>findRepresentativeWeeks\<close>
  returns three selected weeks; the weeks it selects from are the consecutive
  168-record windows of the series, with the final remainder kept only if it has at
  least 120 records; no selected window is shorter than 120 records; the volatility
  of a pick is the population standard deviation of the prices of its window, in the
  arithmetic of the engine; and the standard deviation of the volatile pick is at
  least that of the typical pick, and of every other window.
\<close>

theorem representative_weeks_selection:
  assumes "168 \<le> length data"
  shows "\<exists>r t v n.
      findRepresentativeWeeksD e data = Inr r
    \<and> typical r = Some t \<and> volatile r = Some v \<and> negative r = Some n
    \<and> groupByWeek data = weekWindows data
    \<and> (\<exists>rest. data = concat (groupByWeek data) @ rest \<and> length rest < 120)
    \<and> week_data t \<in> set (groupByWeek data)
    \<and> week_data v \<in> set (groupByWeek data)
    \<and> week_data n \<in> set (groupByWeek data)
    \<and> 120 \<le> length (week_data t) \<and> 120 \<le> length (week_data v) \<and> 120 \<le> length (week_data n)
    \<and> volatility t = stdDevD e (map price (week_data t))
    \<and> volatility v = stdDevD e (map price (week_data v))
    \<and> stdDevD e (map price (week_data t)) \<le> stdDevD e (map price (week_data v))
    \<and> (\<forall>w \<in> set (groupByWeek data).
          stdDevD e (map price w) \<le> stdDevD e (map price (week_data v)))"
proof -
  let ?ws = "groupByWeek data"
  have ww: "?ws = weekWindows data" by (rule groupByWeek_weekWindows)
  have ne: "?ws \<noteq> []" unfolding ww using assms by (intro weekWindows_nonempty) simp
  have len: "\<And>w. w \<in> set ?ws \<Longrightarrow> 120 \<le> length w"
    unfolding ww using weekWindows_lengths by blast
  have "\<And>w. w \<in> set ?ws \<Longrightarrow> \<exists>m. weekMetricD e w = Inr m"
    using len by (intro weekMetricD_total) fastforce
  then obtain ms where ms: "mapE (weekMetricD e) ?ws = Inr ms"
    using mapE_total[of ?ws "weekMetricD e"] by blast
  then have all2: "list_all2 (\<lambda>w m. weekMetricD e w = Inr m) ?ws ms"
    by (rule mapE_Inr_all2)
  then have lms: "length ms = length ?ws" by (simp add: list_all2_lengthD)
  with ne have pos: "0 < length ms" by simp
  define s where "s = sort_key volatility ms"
  define sn where "sn = sort_key (\<lambda>w. - int (negativeHours w)) ms"
  have ls: "length s = length ms" and lsn: "length sn = length ms"
    by (simp_all add: s_def sn_def)
  define t where "t = s ! (length s div 2)"
  define v where "v = s ! (length s - 1)"
  define n where "n = sn ! 0"
  have it: "length s div 2 < length s" and iv: "length s - 1 < length s"
    using pos ls by simp_all
  have r: "findRepresentativeWeeksD e data =
      Inr \<lparr>typical = Some t, volatile = Some v, negative = Some n\<rparr>"
  proof -
    have a: "readAt s (int (length s) div 2) = Some t"
      using readAt_nth[OF it] by (simp add: t_def zdiv_int)
    have b: "readAt s (int (length s) - 1) = Some v"
      using readAt_nth[OF iv] pos ls by (simp add: v_def)
    have c: "readAt sn 0 = Some n"
      using readAt_nth[of 0 sn] pos lsn by (simp add: n_def)
    show ?thesis
      using a b c by (simp add: findRepresentativeWeeksD_def ms Let_def s_def[symmetric] sn_def[symmetric])
  qed
  have mem: "t \<in> set ms" "v \<in> set ms" "n \<in> set ms"
  proof -
    have "t \<in> set s" "v \<in> set s" unfolding t_def v_def using it iv by simp_all
    then show "t \<in> set ms" "v \<in> set ms" by (simp_all add: s_def)
    have "n \<in> set sn" unfolding n_def using pos lsn by simp
    then show "n \<in> set ms" by (simp add: sn_def)
  qed
  have src: "\<And>m. m \<in> set ms \<Longrightarrow>
      week_data m \<in> set ?ws \<and> volatility m = stdDevD e (map price (week_data m))"
  proof -
    fix m assume "m \<in> set ms"
    from all2_member[OF all2 this] obtain w where w: "w \<in> set ?ws" "weekMetricD e w = Inr m"
      by blast
    from weekMetricD_fields[OF w(2)] w(1)
    show "week_data m \<in> set ?ws \<and> volatility m = stdDevD e (map price (week_data m))"
      by simp
  qed
  note st = src[OF mem(1)] and sv = src[OF mem(2)] and sn' = src[OF mem(3)]
  have srt: "sorted (map volatility s)" by (simp add: s_def)
  have mx: "\<And>m. m \<in> set ms \<Longrightarrow> volatility m \<le> volatility v"
  proof -
    fix m assume "m \<in> set ms"
    then have "m \<in> set s" by (simp add: s_def)
    from sorted_last_max[OF srt this] show "volatility m \<le> volatility v"
      by (simp add: v_def)
  qed
  have le: "stdDevD e (map price (week_data t)) \<le> stdDevD e (map price (week_data v))"
    using mx[OF mem(1)] st sv by simp
  have top: "\<forall>w \<in> set ?ws. stdDevD e (map price w) \<le> stdDevD e (map price (week_data v))"
  proof
    fix w assume w: "w \<in> set ?ws"
    from all2_member_left[OF all2 w] obtain m where m: "m \<in> set ms" "weekMetricD e w = Inr m"
      by blast
    from weekMetricD_fields[OF m(2)] have "volatility m = stdDevD e (map price w)" by simp
    with mx[OF m(1)] sv show "stdDevD e (map price w) \<le> stdDevD e (map price (week_data v))"
      by simp
  qed
  have rest: "\<exists>rest. data = concat ?ws @ rest \<and> length rest < 120"
    unfolding ww by (rule concat_weekWindows)
  have "findRepresentativeWeeksD e data = Inr \<lparr>typical = Some t, volatile = Some v, negative = Some n\<rparr>
    \<and> typical \<lparr>typical = Some t, volatile = Some v, negative = Some n\<rparr> = Some t
    \<and> volatile \<lparr>typical = Some t, volatile = Some v, negative = Some n\<rparr> = Some v
    \<and> negative \<lparr>typical = Some t, volatile = Some v, negative = Some n\<rparr> = Some n
    \<and> groupByWeek data = weekWindows data
    \<and> (\<exists>rest. data = concat (groupByWeek data) @ rest \<and> length rest < 120)
    \<and> week_data t \<in> set (groupByWeek data)
    \<and> week_data v \<in> set (groupByWeek data)
    \<and> week_data n \<in> set (groupByWeek data)
    \<and> 120 \<le> length (week_data t) \<and> 120 \<le> length (week_data v) \<and> 120 \<le> length (week_data n)
    \<and> volatility t = stdDevD e (map price (week_data t))
    \<and> volatility v = stdDevD e (map price (week_data v))
    \<and> stdDevD e (map price (week_data t)) \<le> stdDevD e (map price (week_data v))
    \<and> (\<forall>w \<in> set (groupByWeek data).
          stdDevD e (map price w) \<le> stdDevD e (map price (week_data v)))"
    using r ww rest st sv sn' len[of "week_data t"] len[of "week_data v"] len[of "week_data n"] le top
    by (intro conjI) simp_all
  then show ?thesis by blast
qed

lemma map_price_hourly: "map price (hourly ps) = ps"
proof -
  have "map price (hourly ps) = map snd (enumerate 0 ps)"
    by (simp add: hourly_def split_def o_def)
  then show ?thesis by simp
qed

lemma length_hourly: "length (hourly ps) = length ps"
  by (simp add: hourly_def)

lemma map_weekWindows: "map (map f) (weekWindows xs) = weekWindows (map f xs)"
proof (induction xs rule: weekWindows.induct)
  case (1 xs)
  show ?case
  proof (cases "length xs > 168")
    case True
    from "1.IH"[OF True] True show ?thesis
      by (subst weekWindows.simps, subst (2) weekWindows.simps) (simp add: take_map drop_map)
  next
    case False
    then show ?thesis
      by (subst weekWindows.simps, subst (2) weekWindows.simps) simp
  qed
qed

lemma weekWindows_step:
  "length a = 168 \<Longrightarrow> rest \<noteq> [] \<Longrightarrow> weekWindows (a @ rest) = a # weekWindows rest"
  by (subst weekWindows.simps) (cases rest, simp_all)

lemma weekWindows_last:
  "120 \<le> length c \<Longrightarrow> length c \<le> 168 \<Longrightarrow> weekWindows c = [c]"
  by (subst weekWindows.simps) simp

lemma weekWindows_short: "length c < 120 \<Longrightarrow> weekWindows c = []"
  by (subst weekWindows.simps) simp

lemma sum_list_zigzag: "sum_list (concat (replicate n [x, y])) = real n * (x + y)"
  for x :: real
  by (induction n) (simp_all add: algebra_simps)

lemma length_zigzag: "length (concat (replicate n [x, y])) = 2 * n"
  by (induction n) simp_all

lemma map_zigzag: "map f (concat (replicate n [x, y])) = concat (replicate n [f x, f y])"
  by (induction n) simp_all

lemma zigzag_nonempty: "0 < n \<Longrightarrow> concat (replicate n [x, y]) \<noteq> []"
  by (cases n) simp_all

lemma stdDevD_exampleEngine:
  "stdDevD exampleEngine xs =
     sqrt (sum_list (map (\<lambda>x. (x - sum_list xs / real (length xs)) ^ 2) xs) / real (length xs))"
  by (simp add: stdDevD_def sumD_def exampleEngine_def Let_def foldl_plus_sum_list)

lemma stdDevD_zigzag:
  assumes "0 < n" and "0 \<le> a"
  shows "stdDevD exampleEngine (concat (replicate n [0, 2 * a])) = a"
proof -
  have n: "real n \<noteq> 0" using assms(1) by simp
  have m: "sum_list (concat (replicate n [0, 2 * a])) / real (length (concat (replicate n [0, 2 * a]))) = a"
    using n by (simp add: sum_list_zigzag length_zigzag)
  have "sum_list (map (\<lambda>x. (x - a) ^ 2) (concat (replicate n [0, 2 * a])))
      = real n * (a ^ 2 + a ^ 2)"
    by (simp add: map_zigzag sum_list_zigzag)
  then have "sum_list (map (\<lambda>x. (x - a) ^ 2) (concat (replicate n [0, 2 * a])))
        / real (length (concat (replicate n [0, 2 * a]))) = a ^ 2"
    using n by (simp add: length_zigzag)
  then have "stdDevD exampleEngine (concat (replicate n [0, 2 * a])) = sqrt (a ^ 2)"
    by (simp only: stdDevD_exampleEngine m)
  with assms(2) show ?thesis by simp
qed

lemma stdDevD_flat:
  assumes "0 < n"
  shows "stdDevD exampleEngine (replicate n c) = 0"
proof -
  have n: "real n \<noteq> 0" using assms by simp
  have m: "sum_list (replicate n c) / real (length (replicate n c)) = c"
    using n by (simp add: sum_list_replicate)
  have "map (\<lambda>x. (x - c) ^ 2) (replicate n c) = replicate n 0" by simp
  then have "sum_list (map (\<lambda>x. (x - c) ^ 2) (replicate n c)) = 0"
    by (simp add: sum_list_replicate)
  then show ?thesis
    by (simp only: stdDevD_exampleEngine m) simp
qed

lemma weeksExample_prices:
  "weekWindows (map price weeksExample) =
     [concat (replicate 84 [0, 4]), replicate 168 5, concat (replicate 65 [0, 2])]"
proof -
  have a: "length (concat (replicate 84 [0, 4 :: real])) = 168" by (simp add: length_zigzag)
  have b: "length (replicate 168 (5 :: real)) = 168" by simp
  have c: "length (concat (replicate 65 [0, 2 :: real])) = 130" by (simp add: length_zigzag)
  have c0: "concat (replicate 65 [0, 2 :: real]) \<noteq> []" by (rule zigzag_nonempty) simp
  have "weekWindows (map price weeksExample) =
      weekWindows (concat (replicate 84 [0, 4]) @ (replicate 168 5 @ concat (replicate 65 [0, 2])))"
    by (simp only: weeksExample_def map_price_hourly)
  also have "\<dots> = concat (replicate 84 [0, 4]) # weekWindows (replicate 168 5 @ concat (replicate 65 [0, 2]))"
    by (rule weekWindows_step[OF a]) simp
  also have "weekWindows (replicate 168 5 @ concat (replicate 65 [0, 2 :: real]))
      = replicate 168 5 # weekWindows (concat (replicate 65 [0, 2]))"
    by (rule weekWindows_step[OF b c0])
  also have "weekWindows (concat (replicate 65 [0, 2 :: real])) = [concat (replicate 65 [0, 2])]"
    by (rule weekWindows_last) (simp_all add: length_zigzag)
  finally show ?thesis .
qed

lemma shortTailExample_prices:
  "weekWindows (map price shortTailExample) =
     [replicate 168 5, concat (replicate 84 [0, 2])]"
proof -
  have a: "length (concat (replicate 84 [0, 2 :: real])) = 168" by (simp add: length_zigzag)
  have b: "length (replicate 168 (5 :: real)) = 168" by simp
  have "weekWindows (map price shortTailExample) =
      weekWindows (replicate 168 5 @ (concat (replicate 84 [0, 2]) @ replicate 50 7))"
    by (simp only: shortTailExample_def map_price_hourly)
  also have "\<dots> = replicate 168 5 # weekWindows (concat (replicate 84 [0, 2]) @ replicate 50 7)"
    by (rule weekWindows_step[OF b]) simp
  also have "weekWindows (concat (replicate 84 [0, 2 :: real]) @ replicate 50 7)
      = concat (replicate 84 [0, 2]) # weekWindows (replicate 50 7)"
    by (rule weekWindows_step[OF a]) simp
  also have "weekWindows (replicate 50 (7 :: real)) = []"
    by (rule weekWindows_short) simp
  finally show ?thesis .
qed

lemma example_lengths:
  "length weeksExample = 466"
  "length shortTailExample = 386"
  "map length (groupByWeek weeksExample) = [168, 168, 130]"
  "map length (groupByWeek shortTailExample) = [168, 168]"
proof -
  show "length weeksExample = 466"
    by (simp add: weeksExample_def length_hourly length_zigzag)
  show "length shortTailExample = 386"
    by (simp add: shortTailExample_def length_hourly length_zigzag)
  have "map length (groupByWeek weeksExample) = map length (map (map price) (weekWindows weeksExample))"
    by (simp add: groupByWeek_weekWindows o_def)
  then show "map length (groupByWeek weeksExample) = [168, 168, 130]"
    by (simp only: map_weekWindows weeksExample_prices) (simp add: length_zigzag)
  have "map length (groupByWeek shortTailExample)
      = map length (map (map price) (weekWindows shortTailExample))"
    by (simp add: groupByWeek_weekWindows o_def)
  then show "map length (groupByWeek shortTailExample) = [168, 168]"
    by (simp only: map_weekWindows shortTailExample_prices) (simp add: length_zigzag)
qed

lemma weeksExample_picks:
  "\<exists>m1 m3 n.
      findRepresentativeWeeksD exampleEngine weeksExample
        = Inr \<lparr>typical = Some m3, volatile = Some m1, negative = Some n\<rparr>
    \<and> volatility m1 = 2 \<and> volatility m3 = 1
    \<and> length (week_data m1) = 168 \<and> length (week_data m3) = 130"
proof -
  let ?e = exampleEngine
  let ?A = "concat (replicate 84 [0, 4 :: real])"
  let ?B = "replicate 168 (5 :: real)"
  let ?C = "concat (replicate 65 [0, 2 :: real])"
  have "map (map price) (groupByWeek weeksExample) = [?A, ?B, ?C]"
    by (simp only: groupByWeek_weekWindows map_weekWindows weeksExample_prices)
  then obtain w1 w2 w3 where ws: "groupByWeek weeksExample = [w1, w2, w3]"
    and p: "map price w1 = ?A" "map price w2 = ?B" "map price w3 = ?C"
    by (auto simp: map_eq_Cons_conv)
  have ne: "w1 \<noteq> []" "w2 \<noteq> []" "w3 \<noteq> []"
    using p zigzag_nonempty[of 84 0 "4 :: real"] zigzag_nonempty[of 65 0 "2 :: real"] by auto
  from weekMetricD_total[OF ne(1), of ?e] obtain m1 where m1: "weekMetricD ?e w1 = Inr m1" by blast
  from weekMetricD_total[OF ne(2), of ?e] obtain m2 where m2: "weekMetricD ?e w2 = Inr m2" by blast
  from weekMetricD_total[OF ne(3), of ?e] obtain m3 where m3: "weekMetricD ?e w3 = Inr m3" by blast
  have sA: "stdDevD ?e ?A = 2" using stdDevD_zigzag[of 84 2] by simp
  have sB: "stdDevD ?e ?B = 0" by (rule stdDevD_flat) simp
  have sC: "stdDevD ?e ?C = 1" using stdDevD_zigzag[of 65 1] by simp
  have v: "volatility m1 = 2" "volatility m2 = 0" "volatility m3 = 1"
    using weekMetricD_fields[OF m1] weekMetricD_fields[OF m2] weekMetricD_fields[OF m3]
    by (simp_all add: p sA sB sC)
  have wd: "week_data m1 = w1" "week_data m3 = w3"
    using weekMetricD_fields[OF m1] weekMetricD_fields[OF m3] by simp_all
  have l: "length w1 = 168" "length w3 = 130"
  proof -
    have "length (map price w1) = 168" "length (map price w3) = 130"
      by (simp_all add: p length_zigzag)
    then show "length w1 = 168" "length w3 = 130" by simp_all
  qed
  have ms: "mapE (weekMetricD ?e) (groupByWeek weeksExample) = Inr [m1, m2, m3]"
    by (simp add: ws m1 m2 m3)
  have s: "sort_key volatility [m1, m2, m3] = [m2, m3, m1]"
    by (simp add: v)
  define sn where "sn = sort_key (\<lambda>w. - int (negativeHours w)) [m1, m2, m3]"
  have lsn: "length sn = 3" by (simp add: sn_def)
  have c: "readAt sn 0 = Some (sn ! 0)"
    using readAt_nth[of 0 sn] lsn by simp
  have t: "readAt [m2, m3, m1] (int (length [m2, m3, m1]) div 2) = Some m3"
    and u: "readAt [m2, m3, m1] (int (length [m2, m3, m1]) - 1) = Some m1"
    by (simp_all add: readAt_def)
  have "findRepresentativeWeeksD ?e weeksExample
      = Inr \<lparr>typical = readAt (sort_key volatility [m1, m2, m3])
                         (int (length (sort_key volatility [m1, m2, m3])) div 2),
               volatile = readAt (sort_key volatility [m1, m2, m3])
                         (int (length (sort_key volatility [m1, m2, m3])) - 1),
               negative = readAt sn 0\<rparr>"
    by (simp only: findRepresentativeWeeksD_def ms Let_def sum.case sn_def)
  then have "findRepresentativeWeeksD ?e weeksExample
      = Inr \<lparr>typical = Some m3, volatile = Some m1, negative = Some (sn ! 0)\<rparr>"
    by (simp only: s t u c)
  moreover have "volatility m1 = 2 \<and> volatility m3 = 1
    \<and> length (week_data m1) = 168 \<and> length (week_data m3) = 130"
    by (simp add: v wd l)
  ultimately show ?thesis by blast
qed

theorem representative_weeks_selection_witness:
  "168 \<le> length weeksExample
   \<and> map length (groupByWeek weeksExample) = [168, 168, 130]
   \<and> (\<exists>r t v n.
        findRepresentativeWeeksD exampleEngine weeksExample = Inr r
      \<and> typical r = Some t \<and> volatile r = Some v \<and> negative r = Some n
      \<and> length (week_data t) = 130 \<and> length (week_data v) = 168
      \<and> stdDevD exampleEngine (map price (week_data t)) = 1
      \<and> stdDevD exampleEngine (map price (week_data v)) = 2)
   \<and> 168 \<le> length shortTailExample
   \<and> length shortTailExample = 386
   \<and> map length (groupByWeek shortTailExample) = [168, 168]
   \<and> (\<exists>r t v n.
        findRepresentativeWeeksD exampleEngine shortTailExample = Inr r
      \<and> typical r = Some t \<and> volatile r = Some v \<and> negative r = Some n
      \<and> 120 \<le> length (week_data t) \<and> 120 \<le> length (week_data v))"
proof -
  have h1: "168 \<le> length weeksExample" by (simp add: example_lengths)
  have h2: "168 \<le> length shortTailExample" by (simp add: example_lengths)
  from representative_weeks_selection[OF h1, of exampleEngine]
  obtain r t v n where r: "findRepresentativeWeeksD exampleEngine weeksExample = Inr r"
    and f: "typical r = Some t" "volatile r = Some v" "negative r = Some n"
    and vt: "volatility t = stdDevD exampleEngine (map price (week_data t))"
    and vv: "volatility v = stdDevD exampleEngine (map price (week_data v))"
    by blast
  from weeksExample_picks obtain m1 m3 n0 where
    e: "findRepresentativeWeeksD exampleEngine weeksExample
        = Inr \<lparr>typical = Some m3, volatile = Some m1, negative = Some n0\<rparr>"
    and g: "volatility m1 = 2" "volatility m3 = 1"
      "length (week_data m1) = 168" "length (week_data m3) = 130"
    by blast
  from r e f have tv: "t = m3" "v = m1" by auto
  have A: "\<exists>r t v n.
        findRepresentativeWeeksD exampleEngine weeksExample = Inr r
      \<and> typical r = Some t \<and> volatile r = Some v \<and> negative r = Some n
      \<and> length (week_data t) = 130 \<and> length (week_data v) = 168
      \<and> stdDevD exampleEngine (map price (week_data t)) = 1
      \<and> stdDevD exampleEngine (map price (week_data v)) = 2"
    using r f g vt vv unfolding tv by auto
  from representative_weeks_selection[OF h2, of exampleEngine]
  have B: "\<exists>r t v n.
        findRepresentativeWeeksD exampleEngine shortTailExample = Inr r
      \<and> typical r = Some t \<and> volatile r = Some v \<and> negative r = Some n
      \<and> 120 \<le> length (week_data t) \<and> 120 \<le> length (week_data v)"
    by blast
  from h1 h2 A B example_lengths show ?thesis by (intro conjI)
qed

end
